theory Spec2Isabelle
  imports
    Complex_Main
    "HOL-Library.AList"
    "HOL-Library.DAList"
    "HOL-Library.Char_ord"
    "HOL-Library.List_Lexorder"
begin

section \<open>Call of Duty statistics analyzer\<close>

text \<open>
  The script \<^verbatim>\<open>cod_stats.py\<close> (and its docstring-free twin \<^verbatim>\<open>cod-stats.py\<close>) reads a
  CSV file of game sessions, derives a kill/death ratio for each session and writes a chart
  and a paginated table as PDF documents.

  Conventions of the embedding.
  \<^item> A Python \<^verbatim>\<open>str\<close> is the list of the bytes of its UTF-8 encoding (\<^typ>\<open>string\<close>).
    Comparing such lists lexicographically byte by byte is comparing the Python strings
    code point by code point, so \<^verbatim>\<open>sorted\<close> on strings is \<^const>\<open>sort\<close>.  Reading a
    file with \<^verbatim>\<open>encoding="utf-8"\<close> is then the identity on the bytes of the file.
  \<^item> A Python \<^verbatim>\<open>float\<close> is a finite value, one of the two infinities, or NaN (the type
    \<open>pyfloat\<close> below).  An operation on finite values yields its exact result when that is
    within the range of the finite doubles and overflows beyond it; rounding within the
    range is not modelled.
  \<^item> A Python \<^verbatim>\<open>int\<close> is an \<^typ>\<open>int\<close>.
  \<^item> A \<^verbatim>\<open>dict\<close> is an association list with distinct keys in insertion order
    (\<^typ>\<open>('k, 'v) alist\<close>): storing under a present key replaces the value in place,
    storing under a new key appends.
  \<^item> An exception is a value \<open>Inl e\<close> of a sum type; it ends the computation, and
    what the program did before it is not part of the result.
\<close>

datatype py_error =
  KeyError | TypeError | ValueError | IndexError | ZeroDivisionError | OverflowError

section \<open>Floats\<close>

datatype pyfloat = Fin real | PInf | NInf | NaN

text \<open>The largest finite double, \<^verbatim>\<open>(2 - 2**-52) * 2**1023\<close>.\<close>

definition DBL_MAX :: real where
  "DBL_MAX = (2 ^ 53 - 1) * 2 ^ 971"

text \<open>The float that an operation returns when its exact result is \<open>x\<close>.\<close>

definition fl :: "real \<Rightarrow> pyfloat" where
  "fl x = (if x > DBL_MAX then PInf else if x < - DBL_MAX then NInf else Fin x)"

text \<open>\<^verbatim>\<open>a < b\<close> on floats: false as soon as one side is NaN.\<close>

fun flt :: "pyfloat \<Rightarrow> pyfloat \<Rightarrow> bool" where
  "flt (Fin x) (Fin y) = (x < y)"
| "flt (Fin x) PInf = True"
| "flt NInf (Fin y) = True"
| "flt NInf PInf = True"
| "flt _ _ = False"

text \<open>\<^verbatim>\<open>a <= b\<close> on floats\<close>

definition fle :: "pyfloat \<Rightarrow> pyfloat \<Rightarrow> bool" where
  "fle a b \<longleftrightarrow> flt a b \<or> (a = b \<and> a \<noteq> NaN)"

text \<open>\<^verbatim>\<open>abs(a)\<close> and \<^verbatim>\<open>-a\<close>\<close>

fun fabs :: "pyfloat \<Rightarrow> pyfloat" where
  "fabs (Fin x) = Fin \<bar>x\<bar>"
| "fabs PInf = PInf"
| "fabs NInf = PInf"
| "fabs NaN = NaN"

fun fneg :: "pyfloat \<Rightarrow> pyfloat" where
  "fneg (Fin x) = Fin (- x)"
| "fneg PInf = NInf"
| "fneg NInf = PInf"
| "fneg NaN = NaN"

text \<open>\<^verbatim>\<open>a + b\<close>\<close>

fun fadd :: "pyfloat \<Rightarrow> pyfloat \<Rightarrow> pyfloat" where
  "fadd (Fin x) (Fin y) = fl (x + y)"
| "fadd NaN b = NaN"
| "fadd a NaN = NaN"
| "fadd PInf NInf = NaN"
| "fadd NInf PInf = NaN"
| "fadd PInf b = PInf"
| "fadd a PInf = PInf"
| "fadd NInf b = NInf"
| "fadd a NInf = NInf"

text \<open>\<^verbatim>\<open>a / b\<close>: a zero divisor raises, whatever the dividend.\<close>

fun fdiv :: "pyfloat \<Rightarrow> pyfloat \<Rightarrow> py_error + pyfloat" where
  "fdiv a (Fin y) =
     (if y = 0 then Inl ZeroDivisionError
      else Inr (case a of
                  Fin x \<Rightarrow> fl (x / y)
                | PInf \<Rightarrow> if 0 < y then PInf else NInf
                | NInf \<Rightarrow> if 0 < y then NInf else PInf
                | NaN \<Rightarrow> NaN))"
| "fdiv a NaN = Inr NaN"
| "fdiv (Fin x) b = Inr (Fin 0)"
| "fdiv a b = Inr NaN"

text \<open>
  \<^verbatim>\<open>float(k)\<close> and \<^verbatim>\<open>k / d\<close> for integers: \<^verbatim>\<open>OverflowError\<close> when the result is beyond the
  finite doubles.
\<close>

definition float_of_int :: "int \<Rightarrow> py_error + pyfloat" where
  "float_of_int k =
     (if \<bar>real_of_int k\<bar> > DBL_MAX then Inl OverflowError else Inr (Fin (real_of_int k)))"

definition int_truediv :: "int \<Rightarrow> int \<Rightarrow> py_error + pyfloat" where
  "int_truediv k d =
     (if d = 0 then Inl ZeroDivisionError
      else if \<bar>real_of_int k / real_of_int d\<bar> > DBL_MAX then Inl OverflowError
      else Inr (Fin (real_of_int k / real_of_int d)))"

section \<open>The data model\<close>

definition OUTPUT_DIR :: string where "OUTPUT_DIR = ''output''"
definition GRAPH_PDF_NAME :: string where "GRAPH_PDF_NAME = ''game_statistics_graph.pdf''"
definition TABLE_PDF_NAME :: string where "TABLE_PDF_NAME = ''game_statistics_data.pdf''"
definition KD_LABEL :: string where "KD_LABEL = ''K/D Ratio''"
definition SKILL_LABEL :: string where "SKILL_LABEL = ''Skill''"
definition KD_COLOR :: string where "KD_COLOR = ''cornflowerblue''"
definition SKILL_COLOR :: string where "SKILL_COLOR = ''indianred''"
definition XTICK_STEP :: nat where "XTICK_STEP = 25"
definition ROWS_PER_PAGE :: nat where "ROWS_PER_PAGE = 40"
definition TABLE_HEADERS :: "string list" where
  "TABLE_HEADERS = [''Timestamp'', ''Skill'', ''Kills'', ''Deaths'', ''K/D Ratio'']"

text \<open>
  The value stored for one game: the dictionary with the keys \<^verbatim>\<open>"Skill"\<close>,
  \<^verbatim>\<open>"Kills"\<close>, \<^verbatim>\<open>"Deaths"\<close> and \<^verbatim>\<open>KD_LABEL\<close> that \<^verbatim>\<open>read_game_data\<close> builds.
\<close>

record game_rec =
  Skill :: pyfloat
  Kills :: int
  Deaths :: int
  KD :: pyfloat

type_synonym dataset = "(string, game_rec) alist"

text \<open>
  One row as \<^verbatim>\<open>csv.DictReader\<close> yields it: a dictionary from the header's field names to
  the row's fields, where a field the row is too short for is \<^verbatim>\<open>None\<close>.
\<close>

type_synonym row = "string \<rightharpoonup> string option"

section \<open>The record parser\<close>

text \<open>\<^verbatim>\<open>float(kills) if deaths == 0 else (kills / deaths)\<close>\<close>

definition parse_kd_ratio :: "int \<Rightarrow> int \<Rightarrow> py_error + pyfloat" where
  "parse_kd_ratio kills deaths =
     (if deaths = 0 then float_of_int kills else int_truediv kills deaths)"

text \<open>\<^verbatim>\<open>row.get(k)\<close>: \<^verbatim>\<open>None\<close> for a key that is absent, the stored value otherwise.\<close>

definition row_get :: "row \<Rightarrow> string \<Rightarrow> string option" where
  "row_get r k = (case r k of None \<Rightarrow> None | Some v \<Rightarrow> v)"

text \<open>Truth value of an optional string: \<^verbatim>\<open>None\<close> and \<^verbatim>\<open>""\<close> are false.\<close>

definition truthy :: "string option \<Rightarrow> bool" where
  "truthy v = (case v of None \<Rightarrow> False | Some s \<Rightarrow> s \<noteq> [])"

text \<open>\<^verbatim>\<open>a or b\<close>\<close>

definition py_or :: "string option \<Rightarrow> string option \<Rightarrow> string option" where
  "py_or a b = (if truthy a then a else b)"

text \<open>
  The two header spellings the parser looks up.  The first literal of the source file is
  the six bytes \<^verbatim>\<open>C3 AF C2 BB C2 BF\<close> (the characters U+00EF, U+00BB, U+00BF) before
  \<^verbatim>\<open>UTC Timestamp\<close>.
\<close>

definition TS_KEY :: string where "TS_KEY = ''UTC Timestamp''"

definition BOM_TS_KEY :: string where
  "BOM_TS_KEY = [CHR 0xC3, CHR 0xAF, CHR 0xC2, CHR 0xBB, CHR 0xC2, CHR 0xBF] @ ''UTC Timestamp''"

text \<open>\<^verbatim>\<open>row.get("...UTC Timestamp") or row.get("UTC Timestamp")\<close>\<close>

definition row_ts :: "row \<Rightarrow> string option" where
  "row_ts r = py_or (row_get r BOM_TS_KEY) (row_get r TS_KEY)"

text \<open>
  \<^verbatim>\<open>conv(row[k])\<close> for a conversion \<^verbatim>\<open>conv\<close> (\<^verbatim>\<open>int\<close> or \<^verbatim>\<open>float\<close>) of the Python
  runtime, given as the function \<open>conv\<close> that is \<open>None\<close> where the conversion raises
  \<^verbatim>\<open>ValueError\<close>: \<^verbatim>\<open>KeyError\<close> for an absent column, \<^verbatim>\<open>TypeError\<close> for \<^verbatim>\<open>None\<close>.
\<close>

definition field :: "(string \<Rightarrow> 'a option) \<Rightarrow> row \<Rightarrow> string \<Rightarrow> py_error + 'a" where
  "field conv r k =
     (case r k of
        None \<Rightarrow> Inl KeyError
      | Some None \<Rightarrow> Inl TypeError
      | Some (Some s) \<Rightarrow> (case conv s of None \<Rightarrow> Inl ValueError | Some x \<Rightarrow> Inr x))"

text \<open>
  The body of the loop of \<^verbatim>\<open>read_game_data\<close> for one row: \<open>Inr None\<close> is
  \<^verbatim>\<open>continue\<close>, \<open>Inr (Some (ts, rec))\<close> is the assignment \<^verbatim>\<open>game_data[ts] = rec\<close>.
\<close>

definition parse_row ::
  "(string \<Rightarrow> int option) \<Rightarrow> (string \<Rightarrow> pyfloat option) \<Rightarrow> row
     \<Rightarrow> py_error + (string \<times> game_rec) option" where
  "parse_row py_int py_float r =
     (case row_ts r of
        None \<Rightarrow> Inr None
      | Some ts \<Rightarrow>
          if ts = [] then Inr None
          else
            (case field py_int r ''Kills'' of
               Inl e \<Rightarrow> Inl e
             | Inr kills \<Rightarrow>
            (case field py_int r ''Deaths'' of
               Inl e \<Rightarrow> Inl e
             | Inr deaths \<Rightarrow>
            (case field py_float r ''Skill'' of
               Inl e \<Rightarrow> Inl e
             | Inr skill \<Rightarrow>
            (case parse_kd_ratio kills deaths of
               Inl e \<Rightarrow> Inl e
             | Inr ratio \<Rightarrow>
                 Inr (Some (ts, \<lparr>Skill = skill, Kills = kills, Deaths = deaths,
                                 KD = ratio\<rparr>)))))))"

text \<open>The loop over the rows, with the dictionary built so far.\<close>

fun read_rows ::
  "(string \<Rightarrow> int option) \<Rightarrow> (string \<Rightarrow> pyfloat option) \<Rightarrow> row list \<Rightarrow> dataset
     \<Rightarrow> py_error + dataset" where
  "read_rows py_int py_float [] game_data = Inr game_data"
| "read_rows py_int py_float (r # rows) game_data =
     (case parse_row py_int py_float r of
        Inl e \<Rightarrow> Inl e
      | Inr None \<Rightarrow> read_rows py_int py_float rows game_data
      | Inr (Some (ts, v)) \<Rightarrow> read_rows py_int py_float rows (DAList.update ts v game_data))"

text \<open>
  \<^verbatim>\<open>read_game_data\<close>, on the rows that \<^verbatim>\<open>csv.DictReader\<close> yields for the file.
\<close>

definition read_game_data ::
  "(string \<Rightarrow> int option) \<Rightarrow> (string \<Rightarrow> pyfloat option) \<Rightarrow> row list \<Rightarrow> py_error + dataset" where
  "read_game_data py_int py_float rows = read_rows py_int py_float rows DAList.empty"

definition keys :: "dataset \<Rightarrow> string list" where
  "keys game_data = map fst (DAList.impl_of game_data)"

section \<open>The series extractor\<close>

text \<open>
  A \<^verbatim>\<open>for\<close> loop or a list comprehension whose body may raise: the results in order, or
  the first exception.
\<close>

fun for_each :: "('a \<Rightarrow> py_error + 'b) \<Rightarrow> 'a list \<Rightarrow> py_error + 'b list" where
  "for_each f [] = Inr []"
| "for_each f (x # xs) =
     (case f x of
        Inl e \<Rightarrow> Inl e
      | Inr y \<Rightarrow> (case for_each f xs of Inl e \<Rightarrow> Inl e | Inr ys \<Rightarrow> Inr (y # ys)))"

text \<open>\<^verbatim>\<open>game_data[ts]\<close>\<close>

definition getitem :: "dataset \<Rightarrow> string \<Rightarrow> py_error + game_rec" where
  "getitem game_data ts =
     (case DAList.lookup game_data ts of None \<Rightarrow> Inl KeyError | Some v \<Rightarrow> Inr v)"

text \<open>
  The four assignments of \<^verbatim>\<open>main\<close> that project the dictionary into
  \<^verbatim>\<open>timestamps_sorted\<close>, \<^verbatim>\<open>kd_series\<close>, \<^verbatim>\<open>skill_series\<close> and \<^verbatim>\<open>game_indices\<close>.
\<close>

definition extract_series ::
  "dataset \<Rightarrow> py_error + (string list \<times> pyfloat list \<times> pyfloat list \<times> int list)" where
  "extract_series game_data =
     (let timestamps_sorted = sort (keys game_data) in
      case for_each (\<lambda>ts. case getitem game_data ts of Inl e \<Rightarrow> Inl e | Inr v \<Rightarrow> Inr (KD v))
             timestamps_sorted of
        Inl e \<Rightarrow> Inl e
      | Inr kd_series \<Rightarrow>
      (case for_each (\<lambda>ts. case getitem game_data ts of Inl e \<Rightarrow> Inl e | Inr v \<Rightarrow> Inr (Skill v))
              timestamps_sorted of
         Inl e \<Rightarrow> Inl e
       | Inr skill_series \<Rightarrow>
           Inr (timestamps_sorted, kd_series, skill_series,
                [1 .. int (length timestamps_sorted)])))"

section \<open>The statistics annotator\<close>

text \<open>
  The builtins \<^verbatim>\<open>min(xs, key=f)\<close> and \<^verbatim>\<open>max(xs, key=f)\<close>: \<^verbatim>\<open>ValueError\<close> on an empty
  argument; otherwise the candidate is replaced only by an item whose key is strictly
  smaller (strictly greater), so the first extremal item is returned.
\<close>

fun py_min :: "('a \<Rightarrow> pyfloat) \<Rightarrow> 'a list \<Rightarrow> py_error + 'a" where
  "py_min f [] = Inl ValueError"
| "py_min f (x # xs) = Inr (foldl (\<lambda>m y. if flt (f y) (f m) then y else m) x xs)"

fun py_max :: "('a \<Rightarrow> pyfloat) \<Rightarrow> 'a list \<Rightarrow> py_error + 'a" where
  "py_max f [] = Inl ValueError"
| "py_max f (x # xs) = Inr (foldl (\<lambda>m y. if flt (f m) (f y) then y else m) x xs)"

text \<open>\<^verbatim>\<open>max(a, b, ...)\<close> with several positional arguments\<close>

definition max_args :: "pyfloat \<Rightarrow> pyfloat list \<Rightarrow> pyfloat" where
  "max_args a bs = foldl (\<lambda>m y. if flt m y then y else m) a bs"

text \<open>\<^verbatim>\<open>sum(series)\<close>: the items are added to the start value 0 from left to right.\<close>

definition py_sum :: "pyfloat list \<Rightarrow> pyfloat" where
  "py_sum series = foldl fadd (Fin 0) series"

text \<open>
  \<^verbatim>\<open>compute_series_stats\<close>.  The key \<^verbatim>\<open>series.__getitem__\<close> is applied to the indices of
  \<^verbatim>\<open>range(len(series))\<close> only, where it is \<open>(!) series\<close>.
\<close>

definition compute_series_stats ::
  "pyfloat list \<Rightarrow> py_error + (pyfloat \<times> pyfloat \<times> pyfloat \<times> pyfloat \<times> nat \<times> nat)" where
  "compute_series_stats series =
     (case py_min (\<lambda>x. x) series of
        Inl e \<Rightarrow> Inl e
      | Inr smin \<Rightarrow>
     (case py_max (\<lambda>x. x) series of
        Inl e \<Rightarrow> Inl e
      | Inr smax \<Rightarrow>
     (case fdiv (py_sum series) (Fin (real (length series))) of
        Inl e \<Rightarrow> Inl e
      | Inr avg \<Rightarrow>
     (let span' = max_args (fabs smin) [fabs smax, Fin (1 / 10 ^ 9)] in
     (case py_min (\<lambda>i. series ! i) [0 ..< length series] of
        Inl e \<Rightarrow> Inl e
      | Inr min_idx \<Rightarrow>
     (case py_max (\<lambda>i. series ! i) [0 ..< length series] of
        Inl e \<Rightarrow> Inl e
      | Inr max_idx \<Rightarrow> Inr (smin, smax, avg, span', min_idx, max_idx)))))))"

section \<open>The chart renderer\<close>

text \<open>
  A figure is modelled by what the script asks the plotting library to draw: the calls
  are recorded; the library's layout and the checks it makes on its arguments (the equal
  length of the coordinates of a line, the finiteness of axis limits) are not modelled,
  so an exception in the model is one that the script or a builtin raises.
\<close>

datatype artist =
    Line "int list" "pyfloat list" string string
  | Marker int pyfloat string string
  | HLine pyfloat string string

fun label_of :: "artist \<Rightarrow> string" where
  "label_of (Line xs ys color label) = label"
| "label_of (Marker x y color label) = label"
| "label_of (HLine y color label) = label"

record axes =
  ylabel :: string
  ylim :: "(pyfloat \<times> pyfloat) option"
  artists :: "artist list"

record chart =
  ax1 :: axes
  ax2 :: axes
  legend :: "string list"
  chart_title :: string
  xticks :: "nat list"

text \<open>\<^verbatim>\<open>xs[i]\<close> for an index that is not negative\<close>

definition item :: "'a list \<Rightarrow> nat \<Rightarrow> py_error + 'a" where
  "item xs i = (if i < length xs then Inr (xs ! i) else Inl IndexError)"

text \<open>
  \<^verbatim>\<open>annotate_series_stats\<close>; \<open>fmt2\<close> is the runtime's formatting \<^verbatim>\<open>f"{x:.2f}"\<close> of a float.
\<close>

definition annotate_series_stats ::
  "(pyfloat \<Rightarrow> string) \<Rightarrow> axes \<Rightarrow> int list \<Rightarrow> pyfloat list \<Rightarrow> string \<Rightarrow> string \<Rightarrow> py_error + axes" where
  "annotate_series_stats fmt2 ax indices series color label_prefix =
     (case compute_series_stats series of
        Inl e \<Rightarrow> Inl e
      | Inr (smin, smax, avg, span', min_idx, max_idx) \<Rightarrow>
     (case item indices min_idx of
        Inl e \<Rightarrow> Inl e
      | Inr xmin \<Rightarrow>
     (case item indices max_idx of
        Inl e \<Rightarrow> Inl e
      | Inr xmax \<Rightarrow>
          Inr (ax\<lparr>ylim := Some (fneg span', span'),
                  artists := artists ax @
                    [Marker xmin smin color (''Min '' @ label_prefix @ '': '' @ fmt2 smin),
                     Marker xmax smax color (''Max '' @ label_prefix @ '': '' @ fmt2 smax),
                     HLine avg color (''Avg '' @ label_prefix @ '': '' @ fmt2 avg)]\<rparr>))))"

text \<open>\<^verbatim>\<open>range(start, stop, step)\<close> for \<open>start \<le> stop\<close> and a positive step\<close>

definition py_range :: "nat \<Rightarrow> nat \<Rightarrow> nat \<Rightarrow> nat list" where
  "py_range start stop step =
     map (\<lambda>i. start + i * step) [0 ..< (stop - start + step - 1) div step]"

definition generate_chart ::
  "(pyfloat \<Rightarrow> string) \<Rightarrow> int list \<Rightarrow> pyfloat list \<Rightarrow> pyfloat list \<Rightarrow> string list \<Rightarrow> py_error + chart" where
  "generate_chart fmt2 game_indices kd_series skill_series timestamps_sorted =
     (let a1 = \<lparr>ylabel = KD_LABEL, ylim = None,
                artists = [Line game_indices kd_series KD_COLOR KD_LABEL]\<rparr>;
          a2 = \<lparr>ylabel = SKILL_LABEL, ylim = None,
                artists = [Line game_indices skill_series SKILL_COLOR SKILL_LABEL]\<rparr>
      in
      case (if kd_series \<noteq> []
            then annotate_series_stats fmt2 a1 game_indices kd_series KD_COLOR KD_LABEL
            else Inr a1) of
        Inl e \<Rightarrow> Inl e
      | Inr a1' \<Rightarrow>
     (case (if skill_series \<noteq> []
            then annotate_series_stats fmt2 a2 game_indices skill_series SKILL_COLOR SKILL_LABEL
            else Inr a2) of
        Inl e \<Rightarrow> Inl e
      | Inr a2' \<Rightarrow>
          Inr \<lparr>ax1 = a1', ax2 = a2',
               legend = map label_of (artists a1') @ map label_of (artists a2'),
               chart_title = ''Game Statistics Over Time'',
               xticks = py_range 1 (length timestamps_sorted + 1) XTICK_STEP\<rparr>))"

section \<open>The table renderer and the persisted documents\<close>

text \<open>\<^verbatim>\<open>str(n)\<close> and \<^verbatim>\<open>f"{n}"\<close> for an integer: its decimal digits, with a sign when negative\<close>

function str_nat :: "nat \<Rightarrow> string" where
  "str_nat n =
     (if n < 10 then [''0123456789'' ! n]
      else str_nat (n div 10) @ [''0123456789'' ! (n mod 10)])"
  by pat_completeness auto
termination
  by (relation "measure (\<lambda>n. n)") auto

declare str_nat.simps [simp del]

definition py_str :: "int \<Rightarrow> string" where
  "py_str i = (if i < 0 then CHR ''-'' # str_nat (nat (- i)) else str_nat (nat i))"

record table_fig =
  page_title :: string
  table_data :: "string list list"

datatype page = ChartPage chart | TablePage table_fig

text \<open>
  What the program does to the outside: \<open>WritePdf path pages\<close> is one block
  \<^verbatim>\<open>with PdfPages(path) as pdf: ...\<close>, which creates or truncates the file at \<open>path\<close> and
  leaves in it exactly the pages saved inside the block; \<open>Print s\<close> is a line on the
  standard output.
\<close>

datatype event = WritePdf string "page list" | Print string

text \<open>The document at a path after a sequence of events: what the last write left.\<close>

fun persisted :: "event list \<Rightarrow> string \<Rightarrow> page list option" where
  "persisted [] path = None"
| "persisted (WritePdf p pages # evs) path =
     (case persisted evs path of
        Some doc \<Rightarrow> Some doc
      | None \<Rightarrow> if p = path then Some pages else None)"
| "persisted (Print s # evs) path = persisted evs path"

definition save_plot_pdf :: "chart \<Rightarrow> string \<Rightarrow> event list" where
  "save_plot_pdf fig output_path = [WritePdf output_path [ChartPage fig]]"

text \<open>\<^verbatim>\<open>xs[i:j]\<close> for indices that are not negative\<close>

definition slice :: "'a list \<Rightarrow> nat \<Rightarrow> nat \<Rightarrow> 'a list" where
  "slice xs i j = take (j - i) (drop i xs)"

text \<open>The list \<^verbatim>\<open>row\<close> built for one timestamp and its record in \<^verbatim>\<open>save_table_pdf\<close>.\<close>

definition row_cells :: "(pyfloat \<Rightarrow> string) \<Rightarrow> string \<Rightarrow> game_rec \<Rightarrow> string list" where
  "row_cells fmt2 timestamp data =
     [timestamp, fmt2 (Skill data), py_str (Kills data), py_str (Deaths data), fmt2 (KD data)]"

text \<open>One iteration of the loop over \<^verbatim>\<open>current_rows\<close>, with the lookup of the record.\<close>

definition table_row :: "(pyfloat \<Rightarrow> string) \<Rightarrow> dataset \<Rightarrow> string \<Rightarrow> py_error + string list" where
  "table_row fmt2 game_data timestamp =
     (case getitem game_data timestamp of
        Inl e \<Rightarrow> Inl e
      | Inr data \<Rightarrow> Inr (row_cells fmt2 timestamp data))"

text \<open>The figure that one iteration of the page loop builds.\<close>

definition table_page ::
  "(pyfloat \<Rightarrow> string) \<Rightarrow> dataset \<Rightarrow> string list \<Rightarrow> nat \<Rightarrow> nat \<Rightarrow> py_error + table_fig" where
  "table_page fmt2 game_data data_rows total_pages page =
     (let start_idx = page * ROWS_PER_PAGE;
          end_idx = min ((page + 1) * ROWS_PER_PAGE) (length data_rows);
          current_rows = slice data_rows start_idx end_idx
      in
      case for_each (table_row fmt2 game_data) current_rows of
        Inl e \<Rightarrow> Inl e
      | Inr rows \<Rightarrow>
          Inr \<lparr>page_title = ''Game Data Table - Page '' @ py_str (int (page + 1)) @ '' of ''
                              @ py_str (int total_pages),
               table_data = TABLE_HEADERS # rows\<rparr>)"

text \<open>
  \<^verbatim>\<open>save_table_pdf\<close>: every iteration of the page loop builds its figure and then opens
  \<^verbatim>\<open>PdfPages(output_path)\<close> for that figure alone.
\<close>

definition save_table_pdf ::
  "(pyfloat \<Rightarrow> string) \<Rightarrow> dataset \<Rightarrow> string \<Rightarrow> py_error + event list" where
  "save_table_pdf fmt2 game_data output_path =
     (let data_rows = sort (keys game_data);
          total_pages = (length data_rows + ROWS_PER_PAGE - 1) div ROWS_PER_PAGE
      in
      for_each
        (\<lambda>page. case table_page fmt2 game_data data_rows total_pages page of
                   Inl e \<Rightarrow> Inl e
                 | Inr fig \<Rightarrow> Inr (WritePdf output_path [TablePage fig]))
        [0 ..< total_pages])"

section \<open>The driver\<close>

text \<open>\<^verbatim>\<open>s.strip(chars)\<close>\<close>

definition py_strip :: "string \<Rightarrow> string \<Rightarrow> string" where
  "py_strip chars s =
     rev (dropWhile (\<lambda>c. c \<in> set chars) (rev (dropWhile (\<lambda>c. c \<in> set chars) s)))"

text \<open>\<^verbatim>\<open>os.path.join(a, b)\<close> for a relative \<open>b\<close>, on a POSIX system\<close>

definition path_join :: "string \<Rightarrow> string \<Rightarrow> string" where
  "path_join a b = a @ ''/'' @ b"

text \<open>
  \<^verbatim>\<open>main\<close>.  \<open>csv_files\<close> maps the path of each existing input file to the rows that
  \<^verbatim>\<open>csv.DictReader\<close> yields for it, \<open>answer\<close> is the line typed at the prompt.  The result
  is the sequence of writes and printed lines; the creation of the output directory is not
  modelled.
\<close>

definition main ::
  "(pyfloat \<Rightarrow> string) \<Rightarrow> (string \<Rightarrow> int option) \<Rightarrow> (string \<Rightarrow> pyfloat option)
     \<Rightarrow> (string \<rightharpoonup> row list) \<Rightarrow> string \<Rightarrow> py_error + event list" where
  "main fmt2 py_int py_float csv_files answer =
     (let file_path = py_strip [CHR 0x22, CHR 0x27] answer in
      case csv_files file_path of
        None \<Rightarrow> Inr [Print (''Error: File '' @ [CHR 0x27] @ file_path @ [CHR 0x27]
                            @ '' does not exist.'')]
      | Some rows \<Rightarrow>
     (case read_game_data py_int py_float rows of
        Inl e \<Rightarrow> Inl e
      | Inr game_data \<Rightarrow>
          if keys game_data = [] then Inr [Print ''No valid data found in the CSV.'']
          else
     (case extract_series game_data of
        Inl e \<Rightarrow> Inl e
      | Inr (timestamps_sorted, kd_series, skill_series, game_indices) \<Rightarrow>
     (case generate_chart fmt2 game_indices kd_series skill_series timestamps_sorted of
        Inl e \<Rightarrow> Inl e
      | Inr fig \<Rightarrow>
     (let graph_pdf_path = path_join OUTPUT_DIR GRAPH_PDF_NAME;
          table_pdf_path = path_join OUTPUT_DIR TABLE_PDF_NAME
      in
      case save_table_pdf fmt2 game_data table_pdf_path of
        Inl e \<Rightarrow> Inl e
      | Inr table_events \<Rightarrow>
          Inr (save_plot_pdf fig graph_pdf_path @ table_events
               @ [Print (''PDF saved as '' @ graph_pdf_path)]))))))"

section \<open>Observations used in the statements\<close>

text \<open>The timestamps of the rows that carry one, in the order of the rows.\<close>

definition stamps :: "row list \<Rightarrow> string list" where
  "stamps rows =
     concat (map (\<lambda>r. case row_ts r of None \<Rightarrow> [] | Some ts \<Rightarrow> if ts = [] then [] else [ts]) rows)"

text \<open>The data rows (the table without its header row) of the table pages of a document.\<close>

fun page_rows :: "page \<Rightarrow> string list list" where
  "page_rows (TablePage fig) = tl (table_data fig)"
| "page_rows (ChartPage fig) = []"

fun written_rows :: "event \<Rightarrow> string list list" where
  "written_rows (WritePdf path pages) = concat (map page_rows pages)"
| "written_rows (Print s) = []"

section \<open>Sample inputs\<close>

text \<open>
  A conversion table and rows for evaluating the definitions: the three games of the
  round-trip scenario, a game that repeats the first timestamp, and a row without one.
\<close>

definition demo_int :: "string \<Rightarrow> int option" where
  "demo_int s =
     (if s = ''10'' then Some 10 else if s = ''2'' then Some 2 else if s = ''0'' then Some 0
      else if s = ''5'' then Some 5 else None)"

definition demo_float :: "string \<Rightarrow> pyfloat option" where
  "demo_float s =
     (if s = ''1.50'' then Some (Fin (3 / 2)) else if s = ''2.00'' then Some (Fin 2)
      else if s = ''0.75'' then Some (Fin (3 / 4)) else if s = ''nan'' then Some NaN
      else None)"

definition demo_fmt2 :: "pyfloat \<Rightarrow> string" where
  "demo_fmt2 x =
     (if x = Fin (3 / 2) then ''1.50'' else if x = Fin 2 then ''2.00''
      else if x = Fin (3 / 4) then ''0.75'' else if x = Fin 5 then ''5.00''
      else if x = Fin 0 then ''0.00'' else if x = Fin 1 then ''1.00''
      else if x = Fin (17 / 12) then ''1.42'' else if x = NaN then ''nan'' else ''?'')"

definition demo_row :: "string \<Rightarrow> string \<Rightarrow> string \<Rightarrow> string \<Rightarrow> string \<Rightarrow> row" where
  "demo_row header ts skill kills deaths =
     [header \<mapsto> Some ts, ''Skill'' \<mapsto> Some skill, ''Kills'' \<mapsto> Some kills,
      ''Deaths'' \<mapsto> Some deaths]"

definition rec1 :: game_rec where
  "rec1 = \<lparr>Skill = Fin (3 / 2), Kills = 10, Deaths = 2, KD = Fin 5\<rparr>"

definition rec2 :: game_rec where
  "rec2 = \<lparr>Skill = Fin 2, Kills = 0, Deaths = 0, KD = Fin 0\<rparr>"

definition rec3 :: game_rec where
  "rec3 = \<lparr>Skill = Fin (3 / 4), Kills = 5, Deaths = 5, KD = Fin 1\<rparr>"

definition demo_data :: dataset where
  "demo_data = DAList.update ''T3'' rec3 (DAList.update ''T1'' rec1
                 (DAList.update ''T2'' rec2 DAList.empty))"

text \<open>
  The byte-order mark U+FEFF, which a UTF-8 file that starts with the bytes
  \<^verbatim>\<open>EF BB BF\<close> yields as its first character when it is read with \<^verbatim>\<open>encoding="utf-8"\<close>.
\<close>

definition UTF8_BOM :: string where
  "UTF8_BOM = [CHR 0xEF, CHR 0xBB, CHR 0xBF]"

text \<open>A dataset of \<open>n\<close> games that differ in their timestamps only.\<close>

definition many_games :: "nat \<Rightarrow> dataset" where
  "many_games n = DAList.Alist (map (\<lambda>i. (replicate (Suc i) CHR ''a'', rec1)) [0 ..< n])"

section \<open>Properties of the float operations\<close>

lemma DBL_MAX_bounds: "10 ^ 308 < DBL_MAX" "DBL_MAX < 2 * 10 ^ 308"
  by (simp_all add: DBL_MAX_def)

lemma DBL_MAX_pos: "0 < DBL_MAX"
  using DBL_MAX_bounds(1) by (rule less_trans [rotated]) simp

lemma fl_Fin: "\<bar>x\<bar> \<le> DBL_MAX \<Longrightarrow> fl x = Fin x"
  by (auto simp: fl_def)

lemma fl_small: "\<bar>x\<bar> \<le> 10 ^ 308 \<Longrightarrow> fl x = Fin x"
  using DBL_MAX_bounds(1) by (intro fl_Fin) simp

lemma small_in_range: "\<bar>x\<bar> \<le> 10 ^ 308 \<Longrightarrow> \<not> \<bar>x\<bar> > DBL_MAX"
  using DBL_MAX_bounds(1) by simp

lemma parse_kd_ratio_zero:
  assumes "\<bar>real_of_int k\<bar> \<le> 10 ^ 308"
  shows "parse_kd_ratio k 0 = Inr (Fin (real_of_int k))"
  using small_in_range [OF assms] by (simp add: parse_kd_ratio_def float_of_int_def)

lemma parse_kd_ratio_div:
  assumes "d \<noteq> 0" "\<bar>real_of_int k / real_of_int d\<bar> \<le> 10 ^ 308"
  shows "parse_kd_ratio k d = Inr (Fin (real_of_int k / real_of_int d))"
  using assms(1) small_in_range [OF assms(2)]
  by (simp add: parse_kd_ratio_def int_truediv_def)

lemma parse_kd_ratio_demo:
  "parse_kd_ratio 10 2 = Inr (Fin 5)" "parse_kd_ratio 0 0 = Inr (Fin 0)"
  "parse_kd_ratio 5 5 = Inr (Fin 1)"
  using parse_kd_ratio_div [of 2 10] parse_kd_ratio_zero [of 0] parse_kd_ratio_div [of 5 5]
  by simp_all

section \<open>Properties of the record parser\<close>

lemma parse_row_SomeD:
  "parse_row py_int py_float r = Inr (Some (ts, v)) \<Longrightarrow>
     row_ts r = Some ts \<and> ts \<noteq> [] \<and>
     field py_int r ''Kills'' = Inr (Kills v) \<and>
     field py_int r ''Deaths'' = Inr (Deaths v) \<and>
     field py_float r ''Skill'' = Inr (Skill v) \<and>
     parse_kd_ratio (Kills v) (Deaths v) = Inr (KD v)"
  by (auto simp: parse_row_def split: option.splits if_splits sum.splits)

lemma parse_row_skip:
  "row_ts r = None \<or> row_ts r = Some [] \<Longrightarrow> parse_row py_int py_float r = Inr None"
  by (auto simp: parse_row_def)

lemma read_rows_append:
  "read_rows py_int py_float (xs @ ys) d0 =
     (case read_rows py_int py_float xs d0 of
        Inl e \<Rightarrow> Inl e
      | Inr d \<Rightarrow> read_rows py_int py_float ys d)"
  by (induction xs arbitrary: d0) (auto split: sum.splits option.splits)

lemma read_rows_origin:
  "read_rows py_int py_float rows d0 = Inr d \<Longrightarrow> DAList.lookup d k = Some v \<Longrightarrow>
     DAList.lookup d0 k = Some v \<or> (\<exists>r\<in>set rows. parse_row py_int py_float r = Inr (Some (k, v)))"
proof (induction rows arbitrary: d0)
  case Nil
  then show ?case by simp
next
  case (Cons r rows)
  show ?case
  proof (cases "parse_row py_int py_float r")
    case (Inl e)
    with Cons.prems(1) show ?thesis by simp
  next
    case (Inr res)
    show ?thesis
    proof (cases res)
      case None
      with Inr Cons.prems(1) have "read_rows py_int py_float rows d0 = Inr d" by simp
      from Cons.IH [OF this Cons.prems(2)] show ?thesis by auto
    next
      case (Some p)
      obtain ts w where p: "p = (ts, w)" by (cases p)
      from Inr Some p Cons.prems(1)
      have run: "read_rows py_int py_float rows (DAList.update ts w d0) = Inr d" by simp
      from Cons.IH [OF run Cons.prems(2)] Inr Some p show ?thesis
        by (auto simp: lookup_update split: if_splits)
    qed
  qed
qed

lemma demo_parse1:
  "parse_row demo_int demo_float (demo_row TS_KEY ''T1'' ''1.50'' ''10'' ''2'')
     = Inr (Some (''T1'', rec1))"
  by (simp add: parse_row_def row_ts_def py_or_def row_get_def truthy_def field_def demo_row_def
        demo_int_def demo_float_def TS_KEY_def BOM_TS_KEY_def parse_kd_ratio_demo rec1_def)

lemma demo_parse2:
  "parse_row demo_int demo_float (demo_row BOM_TS_KEY ''T2'' ''2.00'' ''0'' ''0'')
     = Inr (Some (''T2'', rec2))"
  by (simp add: parse_row_def row_ts_def py_or_def row_get_def truthy_def field_def demo_row_def
        demo_int_def demo_float_def TS_KEY_def BOM_TS_KEY_def parse_kd_ratio_demo rec2_def)

lemma demo_parse3:
  "parse_row demo_int demo_float (demo_row TS_KEY ''T3'' ''0.75'' ''5'' ''5'')
     = Inr (Some (''T3'', rec3))"
  by (simp add: parse_row_def row_ts_def py_or_def row_get_def truthy_def field_def demo_row_def
        demo_int_def demo_float_def TS_KEY_def BOM_TS_KEY_def parse_kd_ratio_demo rec3_def)

text \<open>
  Claim C1.  Every record that \<^verbatim>\<open>read_game_data\<close> stores under a timestamp comes from a row
  with that timestamp whose \<^verbatim>\<open>Kills\<close> and \<^verbatim>\<open>Deaths\<close> fields convert to the stored
  integers, and its ratio is kills divided by deaths when deaths is not zero and kills as
  a float when deaths is zero.
\<close>

theorem stored_ratio:
  assumes "read_game_data py_int py_float rows = Inr game_data"
    and "DAList.lookup game_data ts = Some v"
  shows "(\<exists>r\<in>set rows. row_ts r = Some ts \<and> field py_int r ''Kills'' = Inr (Kills v)
            \<and> field py_int r ''Deaths'' = Inr (Deaths v))
       \<and> (Deaths v \<noteq> 0 \<longrightarrow> KD v = Fin (real_of_int (Kills v) / real_of_int (Deaths v)))
       \<and> (Deaths v = 0 \<longrightarrow> KD v = Fin (real_of_int (Kills v)))"
proof -
  from assms obtain r where r: "r \<in> set rows" "parse_row py_int py_float r = Inr (Some (ts, v))"
    using read_rows_origin [of py_int py_float rows DAList.empty game_data ts v]
    by (auto simp: read_game_data_def)
  from parse_row_SomeD [OF r(2)] r(1) show ?thesis
    by (auto simp: parse_kd_ratio_def float_of_int_def int_truediv_def split: if_splits)
qed

theorem stored_ratio_witness:
  "read_game_data demo_int demo_float
       [demo_row TS_KEY ''T1'' ''1.50'' ''10'' ''2'', demo_row BOM_TS_KEY ''T2'' ''2.00'' ''0'' ''0'']
     = Inr (DAList.update ''T2'' rec2 (DAList.update ''T1'' rec1 DAList.empty))
   \<and> DAList.lookup (DAList.update ''T2'' rec2 (DAList.update ''T1'' rec1 DAList.empty)) ''T1''
       = Some rec1
   \<and> Deaths rec1 \<noteq> 0 \<and> KD rec1 = Fin (real_of_int (Kills rec1) / real_of_int (Deaths rec1))
   \<and> KD rec1 = Fin 5"
proof -
  have run: "read_game_data demo_int demo_float
       [demo_row TS_KEY ''T1'' ''1.50'' ''10'' ''2'', demo_row BOM_TS_KEY ''T2'' ''2.00'' ''0'' ''0'']
     = Inr (DAList.update ''T2'' rec2 (DAList.update ''T1'' rec1 DAList.empty))"
    by (simp add: read_game_data_def demo_parse1 demo_parse2)
  have look: "DAList.lookup (DAList.update ''T2'' rec2 (DAList.update ''T1'' rec1 DAList.empty)) ''T1''
       = Some rec1"
    by simp
  have "Deaths rec1 \<noteq> 0" "KD rec1 = Fin 5" by (simp_all add: rec1_def)
  with stored_ratio [OF run look] run look show ?thesis by simp
qed

lemma read_rows_skip:
  "parse_row py_int py_float r = Inr None \<Longrightarrow>
     read_rows py_int py_float (pre @ r # post) d0 = read_rows py_int py_float (pre @ post) d0"
  by (simp add: read_rows_append split: sum.splits)

text \<open>
  Claim C10.  A row whose resolved timestamp is the empty string is skipped: parsing it
  stores nothing and raises nothing, whatever its other fields are, and the dataset read
  from the whole input is the one read with the timestamp columns removed from that row,
  and the one read without the row.
\<close>

theorem empty_timestamp_skipped:
  assumes "row_ts r = Some []"
  shows "parse_row py_int py_float r = Inr None
       \<and> row_ts (r(BOM_TS_KEY := None, TS_KEY := None)) = None
       \<and> read_game_data py_int py_float (pre @ r # post)
           = read_game_data py_int py_float (pre @ r(BOM_TS_KEY := None, TS_KEY := None) # post)
       \<and> read_game_data py_int py_float (pre @ r # post)
           = read_game_data py_int py_float (pre @ post)"
proof -
  let ?r' = "r(BOM_TS_KEY := None, TS_KEY := None)"
  have absent: "row_ts ?r' = None"
    by (simp add: row_ts_def py_or_def row_get_def truthy_def)
  have p: "parse_row py_int py_float r = Inr None"
    using assms by (simp add: parse_row_skip)
  have p': "parse_row py_int py_float ?r' = Inr None"
    using absent by (simp add: parse_row_skip)
  show ?thesis
    using absent p read_rows_skip [OF p, of pre post DAList.empty]
      read_rows_skip [OF p', of pre post DAList.empty]
    by (simp add: read_game_data_def)
qed

theorem empty_timestamp_skipped_witness:
  "row_ts (demo_row TS_KEY [] ''2.00'' ''0'' ''0'') = Some []
   \<and> read_game_data demo_int demo_float
       ([demo_row TS_KEY ''T1'' ''1.50'' ''10'' ''2''] @ demo_row TS_KEY [] ''2.00'' ''0'' ''0''
          # [demo_row TS_KEY ''T3'' ''0.75'' ''5'' ''5''])
     = Inr (DAList.update ''T3'' rec3 (DAList.update ''T1'' rec1 DAList.empty))"
proof -
  have e: "row_ts (demo_row TS_KEY [] ''2.00'' ''0'' ''0'') = Some []"
    by (simp add: row_ts_def py_or_def row_get_def truthy_def demo_row_def TS_KEY_def
          BOM_TS_KEY_def)
  have "read_game_data demo_int demo_float
          ([demo_row TS_KEY ''T1'' ''1.50'' ''10'' ''2''] @ [demo_row TS_KEY ''T3'' ''0.75'' ''5'' ''5''])
        = Inr (DAList.update ''T3'' rec3 (DAList.update ''T1'' rec1 DAList.empty))"
    by (simp add: read_game_data_def demo_parse1 demo_parse3)
  moreover have "read_game_data demo_int demo_float
          ([demo_row TS_KEY ''T1'' ''1.50'' ''10'' ''2''] @ demo_row TS_KEY [] ''2.00'' ''0'' ''0''
             # [demo_row TS_KEY ''T3'' ''0.75'' ''5'' ''5''])
        = read_game_data demo_int demo_float
          ([demo_row TS_KEY ''T1'' ''1.50'' ''10'' ''2''] @ [demo_row TS_KEY ''T3'' ''0.75'' ''5'' ''5''])"
    using empty_timestamp_skipped [OF e] by blast
  ultimately show ?thesis using e by (simp only: simp_thms)
qed

subsection \<open>The two header spellings\<close>

text \<open>
  A row that carries a timestamp under the plain header, or under the spelling of the
  literal in the source, has it resolved.
\<close>

lemma plain_header_resolves:
  "r TS_KEY = Some (Some ts) \<Longrightarrow> ts \<noteq> [] \<Longrightarrow> \<not> truthy (row_get r BOM_TS_KEY) \<Longrightarrow> row_ts r = Some ts"
  by (simp add: row_ts_def py_or_def row_get_def)

lemma literal_header_resolves:
  "r BOM_TS_KEY = Some (Some ts) \<Longrightarrow> ts \<noteq> [] \<Longrightarrow> row_ts r = Some ts"
  by (simp add: row_ts_def py_or_def row_get_def truthy_def)

text \<open>
  Claim C2.  The timestamp of every row of a file whose header is \<^verbatim>\<open>UTC Timestamp\<close> behind
  a byte-order mark should be resolved.  In the code such a header is the key U+FEFF
  followed by \<^verbatim>\<open>UTC Timestamp\<close>, which is neither of the two keys that are looked up: the
  row resolves to no timestamp and is skipped, the dataset is empty and the driver reports
  that no valid data was found, while the same row under the plain header is stored.
\<close>

theorem bom_header_rows_dropped:
  "row_ts (demo_row (UTF8_BOM @ TS_KEY) ''T1'' ''1.50'' ''10'' ''2'') = None
   \<and> read_game_data py_int py_float [demo_row (UTF8_BOM @ TS_KEY) ''T1'' ''1.50'' ''10'' ''2'']
       = Inr DAList.empty
   \<and> main fmt2 py_int py_float
       [''games.csv'' \<mapsto> [demo_row (UTF8_BOM @ TS_KEY) ''T1'' ''1.50'' ''10'' ''2'']] ''games.csv''
       = Inr [Print ''No valid data found in the CSV.'']
   \<and> read_game_data demo_int demo_float [demo_row TS_KEY ''T1'' ''1.50'' ''10'' ''2'']
       = Inr (DAList.update ''T1'' rec1 DAList.empty)"
proof -
  have ts: "row_ts (demo_row (UTF8_BOM @ TS_KEY) ''T1'' ''1.50'' ''10'' ''2'') = None"
    by (simp add: row_ts_def py_or_def row_get_def truthy_def demo_row_def TS_KEY_def
          BOM_TS_KEY_def UTF8_BOM_def)
  then have run: "read_game_data py_int py_float
      [demo_row (UTF8_BOM @ TS_KEY) ''T1'' ''1.50'' ''10'' ''2''] = Inr DAList.empty"
    by (simp add: read_game_data_def parse_row_skip)
  have k: "keys DAList.empty = []"
    by (simp add: keys_def DAList.empty.rep_eq)
  have strip: "py_strip [CHR 0x22, CHR 0x27] ''games.csv'' = ''games.csv''"
    by (simp add: py_strip_def)
  have "main fmt2 py_int py_float
       [''games.csv'' \<mapsto> [demo_row (UTF8_BOM @ TS_KEY) ''T1'' ''1.50'' ''10'' ''2'']] ''games.csv''
       = Inr [Print ''No valid data found in the CSV.'']"
    unfolding main_def strip by (simp add: run k)
  moreover have "read_game_data demo_int demo_float [demo_row TS_KEY ''T1'' ''1.50'' ''10'' ''2'']
       = Inr (DAList.update ''T1'' rec1 DAList.empty)"
    by (simp add: read_game_data_def demo_parse1)
  ultimately show ?thesis using ts run by simp
qed

section \<open>Properties of the series extractor and the table renderer\<close>

lemma keys_empty: "keys DAList.empty = []"
  by (simp add: keys_def DAList.empty.rep_eq)

lemma keys_update:
  "keys (DAList.update k v d) = (if k \<in> set (keys d) then keys d else keys d @ [k])"
  by (simp add: keys_def DAList.update.rep_eq update_keys)

lemma distinct_keys: "distinct (keys d)"
  by (simp add: keys_def)

lemma lookup_keys: "k \<in> set (keys d) \<longleftrightarrow> (\<exists>v. DAList.lookup d k = Some v)"
proof -
  have "DAList.lookup d k = None \<longleftrightarrow> k \<notin> fst ` set (DAList.impl_of d)"
    by (simp add: DAList.lookup.rep_eq map_of_eq_None_iff)
  then show ?thesis by (auto simp: keys_def)
qed

lemma getitem_key:
  "ts \<in> set (keys d) \<Longrightarrow> getitem d ts = Inr (the (DAList.lookup d ts))"
  by (auto simp: getitem_def lookup_keys)

lemma for_each_map:
  "(\<And>x. x \<in> set xs \<Longrightarrow> f x = Inr (g x)) \<Longrightarrow> for_each f xs = Inr (map g xs)"
  by (induction xs) simp_all

lemma extract_series_eq:
  "extract_series d =
     Inr (sort (keys d),
          map (\<lambda>ts. KD (the (DAList.lookup d ts))) (sort (keys d)),
          map (\<lambda>ts. Skill (the (DAList.lookup d ts))) (sort (keys d)),
          [1 .. int (length (keys d))])"
proof -
  have kd: "for_each (\<lambda>ts. case getitem d ts of Inl e \<Rightarrow> Inl e | Inr v \<Rightarrow> Inr (KD v)) (sort (keys d))
        = Inr (map (\<lambda>ts. KD (the (DAList.lookup d ts))) (sort (keys d)))"
    by (rule for_each_map) (simp add: getitem_key)
  have sk: "for_each (\<lambda>ts. case getitem d ts of Inl e \<Rightarrow> Inl e | Inr v \<Rightarrow> Inr (Skill v)) (sort (keys d))
        = Inr (map (\<lambda>ts. Skill (the (DAList.lookup d ts))) (sort (keys d)))"
    by (rule for_each_map) (simp add: getitem_key)
  show ?thesis
    unfolding extract_series_def Let_def kd sk by simp
qed

lemma upto_int_nat: "[1 .. int n] = map int [1 ..< Suc n]"
proof (induction n)
  case 0
  then show ?case by simp
next
  case (Suc n)
  have "[1 .. int (Suc n)] = [1 .. int (Suc n) - 1] @ [int (Suc n)]"
    by (rule upto_rec2) simp
  with Suc show ?case by simp
qed

lemma strict_sorted_keys: "sorted_wrt (<) (sort (keys d))"
  using distinct_keys [of d] by (simp add: strict_sorted_iff)

text \<open>
  Claim C8.  For every dataset, the empty one included, the series extraction returns the
  keys of the dataset in ascending order, which is strictly increasing, the ratio and the
  skill series aligned with them (element \<open>i\<close> is the field of the record stored under
  the \<open>i\<close>-th key), and the positions 1 to N; for the empty dataset all four are empty.
\<close>

theorem extract_series_aligned:
  "\<exists>ks kd sk idx.
     extract_series d = Inr (ks, kd, sk, idx)
     \<and> set ks = set (keys d) \<and> length ks = length (keys d)
     \<and> sorted ks \<and> sorted_wrt (<) ks
     \<and> length kd = length ks \<and> length sk = length ks
     \<and> (\<forall>i<length ks. \<exists>v. DAList.lookup d (ks ! i) = Some v \<and> kd ! i = KD v \<and> sk ! i = Skill v)
     \<and> idx = map int [1 ..< Suc (length ks)]
     \<and> (keys d = [] \<longrightarrow> ks = [] \<and> kd = [] \<and> sk = [] \<and> idx = [])"
proof -
  let ?ks = "sort (keys d)"
  have al: "\<forall>i<length ?ks. \<exists>v. DAList.lookup d (?ks ! i) = Some v
      \<and> map (\<lambda>ts. KD (the (DAList.lookup d ts))) ?ks ! i = KD v
      \<and> map (\<lambda>ts. Skill (the (DAList.lookup d ts))) ?ks ! i = Skill v"
  proof (intro allI impI)
    fix i assume i: "i < length ?ks"
    then have "?ks ! i \<in> set (keys d)"
      using nth_mem [of i ?ks] by simp
    then obtain v where "DAList.lookup d (?ks ! i) = Some v"
      by (auto simp: lookup_keys)
    with i show "\<exists>v. DAList.lookup d (?ks ! i) = Some v
      \<and> map (\<lambda>ts. KD (the (DAList.lookup d ts))) ?ks ! i = KD v
      \<and> map (\<lambda>ts. Skill (the (DAList.lookup d ts))) ?ks ! i = Skill v"
      by simp
  qed
  have idx: "[1 .. int (length (keys d))] = map int [1 ..< Suc (length ?ks)]"
    by (simp add: upto_int_nat)
  show ?thesis
    unfolding extract_series_eq using al idx strict_sorted_keys [of d]
    by simp
qed


lemma keys_demo: "keys demo_data = [''T2'', ''T1'', ''T3'']"
  by (simp add: demo_data_def keys_update keys_empty)

lemma sort_demo: "sort (keys demo_data) = [''T1'', ''T2'', ''T3'']"
  by (simp add: keys_demo)

lemma py_str_small: "py_str 2 = ''2''" "py_str 41 = ''41''" "py_str (- 7) = ''-7''" "py_str 0 = ''0''"
  by (simp_all add: py_str_def str_nat.simps)

lemma pages_ceiling: "int ((n + 39) div 40) = \<lceil>real n / 40\<rceil>"
proof -
  let ?m = "(n + 39) div 40"
  have "n \<le> 40 * ?m" "40 * ?m < n + 40" by presburger+
  then have "real n \<le> real (40 * ?m)" "real (40 * ?m) < real (n + 40)"
    by (simp_all only: of_nat_le_iff of_nat_less_iff)
  then have "real n / 40 \<le> real_of_int (int ?m)" "real_of_int (int ?m) - 1 < real n / 40"
    by simp_all
  then show ?thesis by (simp only: ceiling_unique)
qed


lemma take_min_length: "take (min k (length ys)) ys = take k ys"
  by (simp add: min_def)

lemma slice_page:
  "slice xs (p * k) (min ((p + 1) * k) (length xs)) = take k (drop (p * k) xs)"
proof -
  have "min ((p + 1) * k) (length xs) - p * k = min k (length (drop (p * k) xs))"
    by simp
  then show ?thesis
    unfolding slice_def by (simp only: take_min_length)
qed

lemma table_page_eq:
  "table_page fmt2 d (sort (keys d)) tot page =
     Inr \<lparr>page_title = ''Game Data Table - Page '' @ py_str (int (page + 1)) @ '' of ''
                          @ py_str (int tot),
          table_data = TABLE_HEADERS #
            map (\<lambda>ts. row_cells fmt2 ts (the (DAList.lookup d ts)))
              (take 40 (drop (page * 40) (sort (keys d))))\<rparr>"
proof -
  let ?cur = "take 40 (drop (page * 40) (sort (keys d)))"
  have "set ?cur \<subseteq> set (keys d)"
    using set_take_subset [of 40 "drop (page * 40) (sort (keys d))"]
      set_drop_subset [of "page * 40" "sort (keys d)"] by auto
  then have rows: "for_each (table_row fmt2 d) ?cur
      = Inr (map (\<lambda>ts. row_cells fmt2 ts (the (DAList.lookup d ts))) ?cur)"
    by (intro for_each_map) (auto simp: table_row_def getitem_key)
  show ?thesis
    unfolding table_page_def Let_def ROWS_PER_PAGE_def slice_page rows by simp
qed

lemma save_table_pdf_eq:
  "save_table_pdf fmt2 d path =
     Inr (map (\<lambda>page. WritePdf path [TablePage
            \<lparr>page_title = ''Game Data Table - Page '' @ py_str (int (page + 1)) @ '' of ''
                          @ py_str (int ((length (keys d) + 39) div 40)),
             table_data = TABLE_HEADERS #
               map (\<lambda>ts. row_cells fmt2 ts (the (DAList.lookup d ts)))
                 (take 40 (drop (page * 40) (sort (keys d))))\<rparr>])
          [0 ..< (length (keys d) + 39) div 40])"
proof -
  have n: "length (sort (keys d)) + ROWS_PER_PAGE - 1 = length (keys d) + 39"
    by (simp add: ROWS_PER_PAGE_def)
  show ?thesis
    unfolding save_table_pdf_def Let_def n
    unfolding ROWS_PER_PAGE_def
    by (rule for_each_map) (simp only: table_page_eq sum.case)
qed

lemma concat_pages:
  "concat (map (\<lambda>p. take k (drop (p * k) xs)) [0 ..< n]) = take (n * k) xs"
proof (induction n)
  case 0
  then show ?case by simp
next
  case (Suc n)
  have "take (n * k + k) xs = take (n * k) xs @ take k (drop (n * k) xs)"
    by (rule take_add)
  moreover have "Suc n * k = n * k + k" by simp
  ultimately show ?case using Suc by (simp del: mult_Suc)
qed

lemma lookup_demo:
  "DAList.lookup demo_data ''T1'' = Some rec1"
  "DAList.lookup demo_data ''T2'' = Some rec2"
  "DAList.lookup demo_data ''T3'' = Some rec3"
  by (simp_all add: demo_data_def)

lemma extract_demo:
  "extract_series demo_data =
     Inr ([''T1'', ''T2'', ''T3''], [Fin 5, Fin 0, Fin 1], [Fin (3 / 2), Fin 2, Fin (3 / 4)], [1, 2, 3])"
proof -
  have "[1 .. int (length (keys demo_data))] = [1, 2, 3]"
    by (simp add: keys_demo upto.simps)
  then show ?thesis
    unfolding extract_series_eq sort_demo
    by (simp add: lookup_demo rec1_def rec2_def rec3_def)
qed

theorem extract_series_aligned_witness:
  "extract_series demo_data =
     Inr ([''T1'', ''T2'', ''T3''], [Fin 5, Fin 0, Fin 1], [Fin (3 / 2), Fin 2, Fin (3 / 4)], [1, 2, 3])
   \<and> sorted_wrt (<) [''T1'', ''T2'', ''T3'']
   \<and> (2::nat) < length [''T1'', ''T2'', ''T3'']
   \<and> DAList.lookup demo_data ([''T1'', ''T2'', ''T3''] ! 2) = Some rec3
   \<and> [Fin 5, Fin 0, Fin 1] ! 2 = KD rec3 \<and> [Fin (3 / 2), Fin 2, Fin (3 / 4)] ! 2 = Skill rec3
   \<and> keys demo_data \<noteq> []"
proof -
  from extract_series_aligned [of demo_data] obtain ks kd sk idx where
    r: "extract_series demo_data = Inr (ks, kd, sk, idx)" and s: "sorted_wrt (<) ks"
    and a: "\<forall>i<length ks. \<exists>v. DAList.lookup demo_data (ks ! i) = Some v
              \<and> kd ! i = KD v \<and> sk ! i = Skill v"
    by blast
  from r have ks: "ks = [''T1'', ''T2'', ''T3'']" "kd = [Fin 5, Fin 0, Fin 1]" "sk = [Fin (3 / 2), Fin 2, Fin (3 / 4)]"
    by (simp_all add: extract_demo)
  have "(2::nat) < length ks" by (simp add: ks)
  with a obtain v where "DAList.lookup demo_data (ks ! 2) = Some v" "kd ! 2 = KD v"
    "sk ! 2 = Skill v" by blast
  then have "DAList.lookup demo_data (ks ! 2) = Some rec3 \<and> kd ! 2 = KD rec3 \<and> sk ! 2 = Skill rec3"
    by (simp add: ks lookup_demo)
  with s show ?thesis
    unfolding ks by (simp add: extract_demo keys_demo)
qed

lemma lookup_the:
  "ts \<in> set (keys d) \<Longrightarrow> map_option f (DAList.lookup d ts) = Some (f (the (DAList.lookup d ts)))"
  by (auto simp: lookup_keys)

lemma page_keys_subset: "set (take k (drop i (sort (keys d)))) \<subseteq> set (keys d)"
  using set_take_subset [of k "drop i (sort (keys d))"] set_drop_subset [of i "sort (keys d)"]
  by auto

lemma written_rows_pages:
  "concat (map written_rows
      (map (\<lambda>page. WritePdf path [TablePage \<lparr>page_title = t page,
              table_data = h # map g (take k (drop (page * k) xs))\<rparr>]) [0 ..< n]))
   = map g (take (n * k) xs)"
proof -
  have "concat (map written_rows
      (map (\<lambda>page. WritePdf path [TablePage \<lparr>page_title = t page,
              table_data = h # map g (take k (drop (page * k) xs))\<rparr>]) [0 ..< n]))
      = concat (map (\<lambda>p. take k (drop (p * k) (map g xs))) [0 ..< n])"
    by (simp add: comp_def take_map drop_map)
  then show ?thesis by (simp only: concat_pages take_map)
qed

lemma last_page_rows:
  "0 < ((n::nat) + 39) div 40 \<Longrightarrow> min 40 (n - 40 * ((n + 39) div 40 - 1)) = n - 40 * ((n + 39) div 40 - 1)"
proof -
  assume pos: "0 < (n + 39) div 40"
  define m where "m = (n + 39) div 40"
  have "n \<le> 40 * m" "40 * m < n + 40" unfolding m_def by presburger+
  with pos have "n - 40 * (m - 1) \<le> 40" unfolding m_def by linarith
  then show ?thesis unfolding m_def by simp
qed

text \<open>
  Claim C9.  For a dataset of N records the table renderer writes \<open>\<lceil>N / 40\<rceil>\<close> pages.
  Page \<open>i\<close> (counted from 1) is titled \<^verbatim>\<open>Game Data Table - Page i of total\<close>, begins with
  the fixed header row and continues with at most 40 data rows, which are the rows of the
  next 40 timestamps in ascending order; the last page holds \<open>N - 40 * (pages - 1)\<close> data
  rows, and the data rows of all pages together are the rows of all timestamps in
  ascending order.
\<close>

theorem table_pagination:
  "\<exists>evs. save_table_pdf fmt2 d path = Inr evs
     \<and> int (length evs) = \<lceil>real (length (keys d)) / 40\<rceil>
     \<and> (\<forall>i<length evs. \<exists>fig rows.
           evs ! i = WritePdf path [TablePage fig]
         \<and> page_title fig = ''Game Data Table - Page '' @ py_str (int i + 1) @ '' of ''
                              @ py_str (int (length evs))
         \<and> table_data fig = TABLE_HEADERS # rows
         \<and> length rows \<le> 40
         \<and> map Some rows = map (\<lambda>ts. map_option (row_cells fmt2 ts) (DAList.lookup d ts))
                             (take 40 (drop (40 * i) (sort (keys d))))
         \<and> (i + 1 = length evs \<longrightarrow> length rows = length (keys d) - 40 * (length evs - 1)))
     \<and> map Some (concat (map written_rows evs))
         = map (\<lambda>ts. map_option (row_cells fmt2 ts) (DAList.lookup d ts)) (sort (keys d))"
proof -
  let ?n = "length (keys d)"
  let ?tot = "(?n + 39) div 40"
  let ?g = "\<lambda>ts. row_cells fmt2 ts (the (DAList.lookup d ts))"
  let ?t = "\<lambda>page. ''Game Data Table - Page '' @ py_str (int (page + 1)) @ '' of ''
                          @ py_str (int ?tot)"
  let ?fig = "\<lambda>page. \<lparr>page_title = ?t page,
             table_data = TABLE_HEADERS # map ?g (take 40 (drop (page * 40) (sort (keys d))))\<rparr>"
  let ?evs = "map (\<lambda>page. WritePdf path [TablePage (?fig page)]) [0 ..< ?tot]"
  have run: "save_table_pdf fmt2 d path = Inr ?evs"
    by (rule save_table_pdf_eq)
  have len: "length ?evs = ?tot" by simp
  have opt: "map Some (map ?g ks) = map (\<lambda>ts. map_option (row_cells fmt2 ts) (DAList.lookup d ts)) ks"
    if "set ks \<subseteq> set (keys d)" for ks
    using that by (induction ks) (simp_all add: lookup_the)
  have pages: "\<exists>fig rows.
           ?evs ! i = WritePdf path [TablePage fig]
         \<and> page_title fig = ''Game Data Table - Page '' @ py_str (int i + 1) @ '' of ''
                              @ py_str (int (length ?evs))
         \<and> table_data fig = TABLE_HEADERS # rows
         \<and> length rows \<le> 40
         \<and> map Some rows = map (\<lambda>ts. map_option (row_cells fmt2 ts) (DAList.lookup d ts))
                             (take 40 (drop (40 * i) (sort (keys d))))
         \<and> (i + 1 = length ?evs \<longrightarrow> length rows = length (keys d) - 40 * (length ?evs - 1))"
    if i: "i < length ?evs" for i
  proof -
    let ?rows = "map ?g (take 40 (drop (i * 40) (sort (keys d))))"
    from i have i': "i < ?tot" by simp
    then have e: "?evs ! i = WritePdf path [TablePage (?fig i)]" by simp
    have t: "page_title (?fig i) = ''Game Data Table - Page '' @ py_str (int i + 1) @ '' of ''
                              @ py_str (int (length ?evs))"
      unfolding len by (simp add: add.commute)
    have td: "table_data (?fig i) = TABLE_HEADERS # ?rows" by simp
    have l: "length ?rows \<le> 40" by simp
    have o: "map Some ?rows = map (\<lambda>ts. map_option (row_cells fmt2 ts) (DAList.lookup d ts))
                             (take 40 (drop (40 * i) (sort (keys d))))"
      using opt [OF page_keys_subset [of 40 "i * 40" d]] by (simp only: mult.commute)
    have lastp: "length ?rows = ?n - 40 * (length ?evs - 1)" if "i + 1 = length ?evs"
    proof -
      from that have i: "i = ?tot - 1" and pos: "0 < ?tot" by simp_all
      have "length ?rows = min 40 (?n - 40 * i)"
        by (simp add: mult.commute min.commute)
      also have "\<dots> = ?n - 40 * (?tot - 1)"
        unfolding i using pos by (rule last_page_rows)
      finally show ?thesis by (simp only: len)
    qed
    from e t td l o lastp show ?thesis by blast
  qed
  have "?tot * 40 \<ge> ?n" by presburger
  then have "take (?tot * 40) (sort (keys d)) = sort (keys d)" by simp
  then have "concat (map written_rows ?evs) = map ?g (sort (keys d))"
    using written_rows_pages [of path ?t TABLE_HEADERS ?g 40 "sort (keys d)" ?tot] by simp
  then have all: "map Some (concat (map written_rows ?evs))
         = map (\<lambda>ts. map_option (row_cells fmt2 ts) (DAList.lookup d ts)) (sort (keys d))"
    using opt [of "sort (keys d)"] by simp
  have c: "int (length ?evs) = \<lceil>real ?n / 40\<rceil>"
    unfolding len by (rule pages_ceiling)
  from run c pages all show ?thesis by blast
qed


lemma table_demo:
  "save_table_pdf demo_fmt2 demo_data ''t.pdf'' =
     Inr [WritePdf ''t.pdf'' [TablePage
            \<lparr>page_title = ''Game Data Table - Page 1 of 1'',
             table_data =
               [[''Timestamp'', ''Skill'', ''Kills'', ''Deaths'', ''K/D Ratio''],
                [''T1'', ''1.50'', ''10'', ''2'', ''5.00''],
                [''T2'', ''2.00'', ''0'', ''0'', ''0.00''],
                [''T3'', ''0.75'', ''5'', ''5'', ''1.00'']]\<rparr>]]"
proof -
  have n: "(length (keys demo_data) + 39) div 40 = 1" by (simp add: keys_demo)
  have s: "py_str 1 = ''1''" "py_str 10 = ''10''" "py_str 2 = ''2''" "py_str 0 = ''0''"
    "py_str 5 = ''5''"
    by (simp_all add: py_str_def str_nat.simps)
  show ?thesis
    unfolding save_table_pdf_eq n sort_demo
    by (simp add: s lookup_demo row_cells_def rec1_def rec2_def rec3_def demo_fmt2_def
          TABLE_HEADERS_def)
qed

theorem table_pagination_witness:
  "save_table_pdf demo_fmt2 demo_data ''t.pdf'' =
     Inr [WritePdf ''t.pdf'' [TablePage
            \<lparr>page_title = ''Game Data Table - Page 1 of 1'',
             table_data =
               [[''Timestamp'', ''Skill'', ''Kills'', ''Deaths'', ''K/D Ratio''],
                [''T1'', ''1.50'', ''10'', ''2'', ''5.00''],
                [''T2'', ''2.00'', ''0'', ''0'', ''0.00''],
                [''T3'', ''0.75'', ''5'', ''5'', ''1.00'']]\<rparr>]]
   \<and> \<lceil>real (length (keys demo_data)) / 40\<rceil> = 1
   \<and> length (keys demo_data) - 40 * (1 - 1) = 3"
proof -
  from table_pagination [of demo_fmt2 demo_data "''t.pdf''"] obtain evs where
    r: "save_table_pdf demo_fmt2 demo_data ''t.pdf'' = Inr evs"
    and c: "int (length evs) = \<lceil>real (length (keys demo_data)) / 40\<rceil>"
    and p: "\<forall>i<length evs. \<exists>fig rows.
           evs ! i = WritePdf ''t.pdf'' [TablePage fig]
         \<and> table_data fig = TABLE_HEADERS # rows
         \<and> (i + 1 = length evs \<longrightarrow> length rows = length (keys demo_data) - 40 * (length evs - 1))"
    by blast
  from r have evs: "length evs = 1" by (auto simp: table_demo)
  with c have c1: "\<lceil>real (length (keys demo_data)) / 40\<rceil> = 1" by simp
  from evs p obtain fig rows where f: "evs ! 0 = WritePdf ''t.pdf'' [TablePage fig]"
    "table_data fig = TABLE_HEADERS # rows"
    "length rows = length (keys demo_data) - 40 * (1 - 1)"
    by auto
  from r f(1) f(2) have "length rows = 3"
    by (auto simp: table_demo)
  with f(3) c1 show ?thesis by (simp add: table_demo)
qed

lemma persisted_pages:
  "persisted (map (\<lambda>p. WritePdf path [f p]) ps) path =
     (if ps = [] then None else Some [f (last ps)])"
  by (induction ps) simp_all

lemma keys_many_games:
  "keys (many_games n) = map (\<lambda>i. replicate (Suc i) CHR ''a'') [0 ..< n]"
proof -
  have "inj_on (\<lambda>i. replicate (Suc i) CHR ''a'') (set [0 ..< n])"
    by (rule inj_onI) (metis length_replicate nat.inject)
  then have "distinct (map fst (map (\<lambda>i. (replicate (Suc i) CHR ''a'', rec1)) [0 ..< n]))"
    by (simp add: distinct_map comp_def)
  then show ?thesis
    unfolding keys_def many_games_def by (simp add: impl_of_Alist comp_def)
qed

text \<open>
  Claim C3.  The pages of the table should accumulate in one persisted document.  For a
  dataset of 41 records the renderer builds two pages and opens the output path once for
  each of them, so that the document left at the path holds the second page only.
\<close>

theorem table_document_keeps_last_page_only:
  "\<exists>evs p1 p2.
     save_table_pdf fmt2 (many_games 41) path = Inr evs
     \<and> length (keys (many_games 41)) = 41
     \<and> evs = [WritePdf path [TablePage p1], WritePdf path [TablePage p2]]
     \<and> page_title p1 = ''Game Data Table - Page 1 of 2''
     \<and> page_title p2 = ''Game Data Table - Page 2 of 2''
     \<and> persisted evs path = Some [TablePage p2]"
proof -
  have n: "length (keys (many_games 41)) = 41" by (simp add: keys_many_games)
  have t: "(41 + 39) div 40 = (2::nat)" "[0 ..< 2] = [0, 1]" by (simp_all add: upt_rec)
  have s: "py_str 1 = ''1''" "py_str 2 = ''2''"
    by (simp_all add: py_str_def str_nat.simps)
  show ?thesis
    unfolding save_table_pdf_eq n t by (simp add: s)
qed

section \<open>Properties of the statistics annotator\<close>

lemma flt_NaN: "\<not> flt NaN a" "\<not> flt a NaN"
  by (cases a; simp)+

lemma flt_not_NaN: "flt a b \<Longrightarrow> a \<noteq> NaN \<and> b \<noteq> NaN"
  by (cases a; cases b; simp)

lemma flt_irrefl: "\<not> flt a a"
  by (cases a; simp)

lemma flt_trans: "flt a b \<Longrightarrow> flt b c \<Longrightarrow> flt a c"
  by (cases a; cases b; cases c; simp)

lemma flt_asym: "flt a b \<Longrightarrow> \<not> flt b a"
  by (cases a; cases b; simp)

lemma flt_imp_fle: "flt a b \<Longrightarrow> fle a b"
  by (simp add: fle_def)

lemma fle_refl: "a \<noteq> NaN \<Longrightarrow> fle a a"
  by (simp add: fle_def)

lemma fle_flt_trans: "fle a b \<Longrightarrow> flt b c \<Longrightarrow> flt a c"
  by (auto simp: fle_def intro: flt_trans)

lemma flt_fle_trans: "flt a b \<Longrightarrow> fle b c \<Longrightarrow> flt a c"
  by (auto simp: fle_def intro: flt_trans)

lemma fle_trans: "fle a b \<Longrightarrow> fle b c \<Longrightarrow> fle a c"
  by (auto simp: fle_def intro: flt_trans)

lemma flt_not_fle: "flt a b \<Longrightarrow> \<not> fle b a"
  by (auto simp: fle_def dest: flt_asym flt_irrefl [THEN notE])

lemma not_flt_fle: "a \<noteq> NaN \<Longrightarrow> b \<noteq> NaN \<Longrightarrow> \<not> flt a b \<Longrightarrow> fle b a"
  by (cases a; cases b; simp add: fle_def; linarith)

lemma not_fle_flt: "a \<noteq> NaN \<Longrightarrow> b \<noteq> NaN \<Longrightarrow> \<not> fle a b \<Longrightarrow> flt b a"
  by (cases a; cases b; simp add: fle_def; linarith)

lemma fle_antisym: "fle a b \<Longrightarrow> fle b a \<Longrightarrow> a = b"
  by (auto simp: fle_def dest: flt_asym)

lemma fle_Fin: "fle (Fin x) (Fin y) \<longleftrightarrow> x \<le> y"
  by (auto simp: fle_def)

lemma flt_fneg: "flt (fneg a) (fneg b) = flt b a"
  by (cases a; cases b; simp)

lemma fneg_NaN: "fneg a = NaN \<longleftrightarrow> a = NaN"
  by (cases a; simp)

lemma fneg_inj: "fneg a = fneg b \<longleftrightarrow> a = b"
  by (cases a; cases b; simp)

lemma fle_fneg: "fle (fneg a) (fneg b) = fle b a"
  by (auto simp: fle_def flt_fneg fneg_NaN fneg_inj)

lemma fabs_NaN: "fabs a = NaN \<longleftrightarrow> a = NaN"
  by (cases a; simp)


lemma first_min_step:
  fixes f :: "'a \<Rightarrow> pyfloat"
  assumes d: "zs = as @ m # bs"
    and lt: "\<forall>a\<in>set as. \<not> fle (f a) (f m)" and le: "\<forall>b\<in>set bs. \<not> flt (f b) (f m)"
  shows "\<exists>as' bs'. zs @ [y] = as' @ (if flt (f y) (f m) then y else m) # bs'
           \<and> (\<forall>a\<in>set as'. \<not> fle (f a) (f (if flt (f y) (f m) then y else m)))
           \<and> (\<forall>b\<in>set bs'. \<not> flt (f b) (f (if flt (f y) (f m) then y else m)))"
proof (cases "flt (f y) (f m)")
  case True
  have "\<not> fle (f a) (f y)" if "a \<in> set zs" for a
  proof
    assume a: "fle (f a) (f y)"
    then have am: "flt (f a) (f m)" using True by (rule fle_flt_trans)
    from that have "a \<in> set as \<or> a = m \<or> a \<in> set bs" unfolding d by auto
    then show False
    proof (elim disjE)
      assume "a \<in> set as"
      with lt have "\<not> fle (f a) (f m)" by blast
      with am show False by (simp add: flt_imp_fle)
    next
      assume "a = m" with am show False by (simp add: flt_irrefl)
    next
      assume "a \<in> set bs"
      with le have "\<not> flt (f a) (f m)" by blast
      with am show False by simp
    qed
  qed
  then have "zs @ [y] = zs @ y # [] \<and> (\<forall>a\<in>set zs. \<not> fle (f a) (f y))
      \<and> (\<forall>b\<in>set []. \<not> flt (f b) (f y))"
    by simp
  then show ?thesis unfolding if_P [OF True] by blast
next
  case False
  with le have "\<forall>b\<in>set (bs @ [y]). \<not> flt (f b) (f m)" by simp
  moreover have "zs @ [y] = as @ m # (bs @ [y])" unfolding d by simp
  ultimately show ?thesis unfolding if_not_P [OF False] using lt by blast
qed

lemma foldl_min_first:
  fixes f :: "'a \<Rightarrow> pyfloat"
  shows "\<exists>as bs. x # xs = as @ foldl (\<lambda>m y. if flt (f y) (f m) then y else m) x xs # bs
     \<and> (\<forall>a\<in>set as. \<not> fle (f a) (f (foldl (\<lambda>m y. if flt (f y) (f m) then y else m) x xs)))
     \<and> (\<forall>b\<in>set bs. \<not> flt (f b) (f (foldl (\<lambda>m y. if flt (f y) (f m) then y else m) x xs)))"
proof (induction xs rule: rev_induct)
  case Nil
  have "[x] = [] @ x # [] \<and> (\<forall>a\<in>set []. \<not> fle (f a) (f x)) \<and> (\<forall>b\<in>set []. \<not> flt (f b) (f x))"
    by simp
  then show ?case unfolding foldl_Nil by blast
next
  case (snoc y xs)
  define m where "m = foldl (\<lambda>m y. if flt (f y) (f m) then y else m) x xs"
  from snoc obtain as bs where d: "x # xs = as @ m # bs"
    and lt: "\<forall>a\<in>set as. \<not> fle (f a) (f m)" and le: "\<forall>b\<in>set bs. \<not> flt (f b) (f m)"
    unfolding m_def by blast
  have "foldl (\<lambda>m y. if flt (f y) (f m) then y else m) x (xs @ [y])
      = (if flt (f y) (f m) then y else m)"
    unfolding m_def by simp
  moreover have "x # xs @ [y] = (x # xs) @ [y]" by simp
  ultimately show ?case using first_min_step [OF d lt le, of y] by (simp only:)
qed

lemma foldl_min_not_NaN:
  fixes f :: "'a \<Rightarrow> pyfloat"
  shows "f x \<noteq> NaN \<Longrightarrow> f (foldl (\<lambda>m y. if flt (f y) (f m) then y else m) x xs) \<noteq> NaN"
proof (induction xs arbitrary: x)
  case Nil
  then show ?case by simp
next
  case (Cons y xs)
  have "f (if flt (f y) (f x) then y else x) \<noteq> NaN"
    using Cons.prems flt_not_NaN [of "f y" "f x"] by simp
  from Cons.IH [OF this] show ?case by simp
qed

lemma py_min_first:
  fixes f :: "'a \<Rightarrow> pyfloat"
  assumes "xs \<noteq> []"
  shows "\<exists>as m bs. py_min f xs = Inr m \<and> xs = as @ m # bs
           \<and> (\<forall>a\<in>set as. \<not> fle (f a) (f m)) \<and> (\<forall>b\<in>set bs. \<not> flt (f b) (f m))
           \<and> (f (hd xs) \<noteq> NaN \<longrightarrow> f m \<noteq> NaN)"
proof -
  from assms obtain x xs' where xs: "xs = x # xs'" by (cases xs) auto
  define m where "m = foldl (\<lambda>m y. if flt (f y) (f m) then y else m) x xs'"
  from foldl_min_first [of x xs' f] obtain as bs where "x # xs' = as @ m # bs"
    "\<forall>a\<in>set as. \<not> fle (f a) (f m)" "\<forall>b\<in>set bs. \<not> flt (f b) (f m)"
    unfolding m_def by blast
  moreover have "py_min f xs = Inr m" unfolding xs m_def by simp
  moreover have "f (hd xs) \<noteq> NaN \<longrightarrow> f m \<noteq> NaN"
    unfolding xs m_def using foldl_min_not_NaN [of f x xs'] by simp
  ultimately show ?thesis unfolding xs by blast
qed

lemma py_max_as_min: "py_max f xs = py_min (\<lambda>x. fneg (f x)) xs"
  by (cases xs) (simp_all add: flt_fneg)

lemma py_max_first:
  fixes f :: "'a \<Rightarrow> pyfloat"
  assumes "xs \<noteq> []"
  shows "\<exists>as m bs. py_max f xs = Inr m \<and> xs = as @ m # bs
           \<and> (\<forall>a\<in>set as. \<not> fle (f m) (f a)) \<and> (\<forall>b\<in>set bs. \<not> flt (f m) (f b))
           \<and> (f (hd xs) \<noteq> NaN \<longrightarrow> f m \<noteq> NaN)"
  using py_min_first [OF assms, of "\<lambda>x. fneg (f x)"]
  unfolding py_max_as_min fle_fneg flt_fneg fneg_NaN .

lemma upt_split:
  assumes "[0 ..< n] = as @ m # bs"
  shows "m < n \<and> set as = {0 ..< m} \<and> set bs = {Suc m ..< n}"
proof -
  have la: "length as < n" using arg_cong [OF assms, of length] by simp
  have "[0 ..< n] ! length as = m" unfolding assms by simp
  with la have m: "m = length as" by simp
  have "as = take m [0 ..< n]" unfolding assms m by simp
  then have as: "as = [0 ..< m]" using la m by (simp add: take_upt)
  have "bs = drop (Suc m) [0 ..< n]" unfolding assms m by simp
  then have bs: "bs = [Suc m ..< n]" by (simp add: drop_upt)
  from la m have "m < n" by simp
  moreover from as have "set as = {0 ..< m}" by (metis atLeastLessThan_upt)
  moreover from bs have "set bs = {Suc m ..< n}" by (metis atLeastLessThan_upt)
  ultimately show ?thesis by (intro conjI)
qed

lemma py_min_index:
  fixes f :: "nat \<Rightarrow> pyfloat"
  assumes "0 < n"
  shows "\<exists>m. py_min f [0 ..< n] = Inr m \<and> m < n \<and> (\<forall>k<m. \<not> fle (f k) (f m))
           \<and> (\<forall>k<n. m < k \<longrightarrow> \<not> flt (f k) (f m)) \<and> (f 0 \<noteq> NaN \<longrightarrow> f m \<noteq> NaN)"
proof -
  from assms have ne: "[0 ..< n] \<noteq> []" by simp
  from assms have h: "hd [0 ..< n] = 0" by (simp add: upt_rec)
  from py_min_first [OF ne, of f] obtain as m bs where r: "py_min f [0 ..< n] = Inr m"
    and d: "[0 ..< n] = as @ m # bs"
    and lt: "\<forall>a\<in>set as. \<not> fle (f a) (f m)" and le: "\<forall>b\<in>set bs. \<not> flt (f b) (f m)"
    and nn: "f 0 \<noteq> NaN \<longrightarrow> f m \<noteq> NaN"
    unfolding h by blast
  from upt_split [OF d] have mn: "m < n" and sa: "set as = {0 ..< m}"
    and sb: "set bs = {Suc m ..< n}" by simp_all
  have lt': "\<forall>k<m. \<not> fle (f k) (f m)" using lt unfolding sa by simp
  have le': "\<forall>k<n. m < k \<longrightarrow> \<not> flt (f k) (f m)" using le unfolding sb by simp
  from r mn lt' le' nn show ?thesis by blast
qed

lemma py_max_index:
  fixes f :: "nat \<Rightarrow> pyfloat"
  assumes "0 < n"
  shows "\<exists>m. py_max f [0 ..< n] = Inr m \<and> m < n \<and> (\<forall>k<m. \<not> fle (f m) (f k))
           \<and> (\<forall>k<n. m < k \<longrightarrow> \<not> flt (f m) (f k)) \<and> (f 0 \<noteq> NaN \<longrightarrow> f m \<noteq> NaN)"
  using py_min_index [OF assms, of "\<lambda>x. fneg (f x)"]
  unfolding py_max_as_min fle_fneg flt_fneg fneg_NaN .


lemma py_min_props:
  fixes f :: "'a \<Rightarrow> pyfloat"
  assumes "xs \<noteq> []" and "f (hd xs) \<noteq> NaN"
  shows "\<exists>as m bs. py_min f xs = Inr m \<and> xs = as @ m # bs \<and> f m \<noteq> NaN
           \<and> (\<forall>x\<in>set xs. f x \<noteq> NaN \<longrightarrow> fle (f m) (f x)) \<and> (\<forall>a\<in>set as. f a \<noteq> f m)"
proof -
  from py_min_first [OF assms(1), of f] assms(2) obtain as m bs where
    r: "py_min f xs = Inr m" and d: "xs = as @ m # bs"
    and lt: "\<forall>a\<in>set as. \<not> fle (f a) (f m)" and le: "\<forall>b\<in>set bs. \<not> flt (f b) (f m)"
    and nn: "f m \<noteq> NaN"
    by blast
  have low: "fle (f m) (f x)" if "x \<in> set xs" "f x \<noteq> NaN" for x
  proof -
    from that(1) have "x \<in> set as \<or> x = m \<or> x \<in> set bs" unfolding d by auto
    then show ?thesis
    proof (elim disjE)
      assume "x \<in> set as"
      with lt have "\<not> fle (f x) (f m)" by blast
      with that(2) nn have "flt (f m) (f x)" by (intro not_fle_flt)
      then show ?thesis by (rule flt_imp_fle)
    next
      assume "x = m" with nn show ?thesis by (simp add: fle_refl)
    next
      assume "x \<in> set bs"
      with le have "\<not> flt (f x) (f m)" by blast
      with that(2) nn show ?thesis by (intro not_flt_fle)
    qed
  qed
  have first: "f a \<noteq> f m" if "a \<in> set as" for a
  proof
    assume "f a = f m"
    with nn have "fle (f a) (f m)" by (simp add: fle_refl)
    with lt that show False by blast
  qed
  from r d nn low first show ?thesis by blast
qed

lemma py_max_props:
  fixes f :: "'a \<Rightarrow> pyfloat"
  assumes "xs \<noteq> []" and "f (hd xs) \<noteq> NaN"
  shows "\<exists>as m bs. py_max f xs = Inr m \<and> xs = as @ m # bs \<and> f m \<noteq> NaN
           \<and> (\<forall>x\<in>set xs. f x \<noteq> NaN \<longrightarrow> fle (f x) (f m)) \<and> (\<forall>a\<in>set as. f a \<noteq> f m)"
proof -
  have "fneg (f (hd xs)) \<noteq> NaN" using assms(2) by (simp add: fneg_NaN)
  from py_min_props [OF assms(1), of "\<lambda>x. fneg (f x)", OF this]
  show ?thesis unfolding py_max_as_min fle_fneg fneg_NaN fneg_inj .
qed

lemma py_min_index_props:
  assumes "series \<noteq> []" and "hd series \<noteq> NaN"
  shows "\<exists>i. py_min (\<lambda>i. series ! i) [0 ..< length series] = Inr i \<and> i < length series
           \<and> series ! i \<noteq> NaN \<and> (\<forall>x\<in>set series. x \<noteq> NaN \<longrightarrow> fle (series ! i) x)
           \<and> (\<forall>k<i. series ! k \<noteq> series ! i)"
proof -
  from assms(1) have n: "[0 ..< length series] \<noteq> []" "hd [0 ..< length series] = 0"
    by (simp_all add: upt_rec)
  from assms have "series ! hd [0 ..< length series] \<noteq> NaN"
    unfolding n(2) by (simp add: hd_conv_nth)
  from py_min_props [OF n(1), of "\<lambda>i. series ! i", OF this] obtain as i bs where
    r: "py_min (\<lambda>i. series ! i) [0 ..< length series] = Inr i"
    and d: "[0 ..< length series] = as @ i # bs" and nn: "series ! i \<noteq> NaN"
    and low: "\<forall>k\<in>set [0 ..< length series]. series ! k \<noteq> NaN \<longrightarrow> fle (series ! i) (series ! k)"
    and first: "\<forall>a\<in>set as. series ! a \<noteq> series ! i"
    by blast
  from upt_split [OF d] have i: "i < length series" and sa: "set as = {0 ..< i}" by simp_all
  have low': "fle (series ! i) x" if "x \<in> set series" "x \<noteq> NaN" for x
  proof -
    from that(1) obtain k where "k < length series" "series ! k = x"
      by (auto simp: in_set_conv_nth)
    with low that(2) show ?thesis by auto
  qed
  have first': "\<forall>k<i. series ! k \<noteq> series ! i" using first unfolding sa by simp
  from r i nn low' first' show ?thesis by blast
qed

lemma py_max_index_props:
  assumes "series \<noteq> []" and "hd series \<noteq> NaN"
  shows "\<exists>i. py_max (\<lambda>i. series ! i) [0 ..< length series] = Inr i \<and> i < length series
           \<and> series ! i \<noteq> NaN \<and> (\<forall>x\<in>set series. x \<noteq> NaN \<longrightarrow> fle x (series ! i))
           \<and> (\<forall>k<i. series ! k \<noteq> series ! i)"
proof -
  from assms(1) have n: "[0 ..< length series] \<noteq> []" "hd [0 ..< length series] = 0"
    by (simp_all add: upt_rec)
  from assms have "series ! hd [0 ..< length series] \<noteq> NaN"
    unfolding n(2) by (simp add: hd_conv_nth)
  from py_max_props [OF n(1), of "\<lambda>i. series ! i", OF this] obtain as i bs where
    r: "py_max (\<lambda>i. series ! i) [0 ..< length series] = Inr i"
    and d: "[0 ..< length series] = as @ i # bs" and nn: "series ! i \<noteq> NaN"
    and low: "\<forall>k\<in>set [0 ..< length series]. series ! k \<noteq> NaN \<longrightarrow> fle (series ! k) (series ! i)"
    and first: "\<forall>a\<in>set as. series ! a \<noteq> series ! i"
    by blast
  from upt_split [OF d] have i: "i < length series" and sa: "set as = {0 ..< i}" by simp_all
  have low': "fle x (series ! i)" if "x \<in> set series" "x \<noteq> NaN" for x
  proof -
    from that(1) obtain k where "k < length series" "series ! k = x"
      by (auto simp: in_set_conv_nth)
    with low that(2) show ?thesis by auto
  qed
  have first': "\<forall>k<i. series ! k \<noteq> series ! i" using first unfolding sa by simp
  from r i nn low' first' show ?thesis by blast
qed

lemma py_min_value_props:
  assumes "series \<noteq> []" and "hd series \<noteq> NaN"
  shows "\<exists>smin. py_min (\<lambda>x. x) series = Inr smin \<and> smin \<in> set series \<and> smin \<noteq> NaN
           \<and> (\<forall>x\<in>set series. x \<noteq> NaN \<longrightarrow> fle smin x)"
proof -
  from py_min_props [OF assms(1), of "\<lambda>x. x", OF assms(2)] obtain as m bs where
    "py_min (\<lambda>x. x) series = Inr m" "series = as @ m # bs" "m \<noteq> NaN"
    "\<forall>x\<in>set series. x \<noteq> NaN \<longrightarrow> fle m x"
    by blast
  moreover from this(2) have "m \<in> set series" by simp
  ultimately show ?thesis by blast
qed

lemma py_max_value_props:
  assumes "series \<noteq> []" and "hd series \<noteq> NaN"
  shows "\<exists>smax. py_max (\<lambda>x. x) series = Inr smax \<and> smax \<in> set series \<and> smax \<noteq> NaN
           \<and> (\<forall>x\<in>set series. x \<noteq> NaN \<longrightarrow> fle x smax)"
proof -
  from py_max_props [OF assms(1), of "\<lambda>x. x", OF assms(2)] obtain as m bs where
    "py_max (\<lambda>x. x) series = Inr m" "series = as @ m # bs" "m \<noteq> NaN"
    "\<forall>x\<in>set series. x \<noteq> NaN \<longrightarrow> fle x m"
    by blast
  moreover from this(2) have "m \<in> set series" by simp
  ultimately show ?thesis by blast
qed




lemma compute_series_stats_run:
  assumes "series \<noteq> []"
  shows "\<exists>smin smax avg i j.
     py_min (\<lambda>x. x) series = Inr smin \<and> py_max (\<lambda>x. x) series = Inr smax
     \<and> fdiv (py_sum series) (Fin (real (length series))) = Inr avg
     \<and> py_min (\<lambda>i. series ! i) [0 ..< length series] = Inr i \<and> i < length series
     \<and> py_max (\<lambda>i. series ! i) [0 ..< length series] = Inr j \<and> j < length series
     \<and> compute_series_stats series =
         Inr (smin, smax, avg, max_args (fabs smin) [fabs smax, Fin (1 / 10 ^ 9)], i, j)"
proof -
  from assms have n: "0 < length series" by simp
  from py_min_first [OF assms, of "\<lambda>x. x"] obtain smin where
    a: "py_min (\<lambda>x. x) series = Inr smin" by blast
  from py_max_first [OF assms, of "\<lambda>x. x"] obtain smax where
    b: "py_max (\<lambda>x. x) series = Inr smax" by blast
  from n obtain avg where c: "fdiv (py_sum series) (Fin (real (length series))) = Inr avg"
    by simp
  from py_min_index [OF n, of "\<lambda>i. series ! i"] obtain i where
    i: "py_min (\<lambda>i. series ! i) [0 ..< length series] = Inr i" "i < length series" by blast
  from py_max_index [OF n, of "\<lambda>i. series ! i"] obtain j where
    j: "py_max (\<lambda>i. series ! i) [0 ..< length series] = Inr j" "j < length series" by blast
  have "compute_series_stats series =
         Inr (smin, smax, avg, max_args (fabs smin) [fabs smax, Fin (1 / 10 ^ 9)], i, j)"
    unfolding compute_series_stats_def a b c i(1) j(1) by (simp only: sum.case Let_def)
  with a b c i j show ?thesis by blast
qed

lemma max_args_three:
  assumes "a \<noteq> NaN" "b \<noteq> NaN" "c \<noteq> NaN"
  shows "(max_args a [b, c] = a \<or> max_args a [b, c] = b \<or> max_args a [b, c] = c)
     \<and> fle a (max_args a [b, c]) \<and> fle b (max_args a [b, c]) \<and> fle c (max_args a [b, c])"
proof -
  define m where "m = (if flt a b then b else a)"
  have m: "(m = a \<or> m = b) \<and> fle a m \<and> fle b m \<and> m \<noteq> NaN"
    unfolding m_def using assms by (auto simp: fle_refl flt_imp_fle not_flt_fle)
  have r: "max_args a [b, c] = (if flt m c then c else m)"
    unfolding max_args_def m_def by simp
  show ?thesis
  proof (cases "flt m c")
    case True
    then have "fle m c" by (rule flt_imp_fle)
    with m have "fle a c" "fle b c" by (blast intro: fle_trans)+
    with True assms(3) show ?thesis unfolding r by (simp add: fle_refl)
  next
    case False
    with m assms(3) have "fle c m" by (intro not_flt_fle) simp_all
    with False m show ?thesis unfolding r by auto
  qed
qed

lemma max_args_Fin:
  "max_args (Fin x) [Fin y, Fin z] = Fin (max (max x y) z)"
  by (simp add: max_args_def max_def)

lemma Fin_least:
  assumes "Fin r \<in> set (map Fin rs)" and "\<forall>x\<in>set (map Fin rs). x \<noteq> NaN \<longrightarrow> fle (Fin r) x"
  shows "r = Min (set rs)"
proof (rule Min_eqI [symmetric])
  show "finite (set rs)" by simp
  show "r \<in> set rs" using assms(1) by auto
  fix y assume "y \<in> set rs"
  then have "Fin y \<in> set (map Fin rs)" by simp
  with assms(2) have "fle (Fin r) (Fin y)" by blast
  then show "r \<le> y" by (simp add: fle_Fin)
qed

lemma Fin_greatest:
  assumes "Fin r \<in> set (map Fin rs)" and "\<forall>x\<in>set (map Fin rs). x \<noteq> NaN \<longrightarrow> fle x (Fin r)"
  shows "r = Max (set rs)"
proof (rule Max_eqI [symmetric])
  show "finite (set rs)" by simp
  show "r \<in> set rs" using assms(1) by auto
  fix y assume "y \<in> set rs"
  then have "Fin y \<in> set (map Fin rs)" by simp
  with assms(2) have "fle (Fin y) (Fin r)" by blast
  then show "y \<le> r" by (simp add: fle_Fin)
qed

lemma compute_series_stats_props:
  assumes ne: "series \<noteq> []" and hd: "hd series \<noteq> NaN"
  shows "\<exists>smin smax avg min_idx max_idx.
     compute_series_stats series =
       Inr (smin, smax, avg, max_args (fabs smin) [fabs smax, Fin (1 / 10 ^ 9)], min_idx, max_idx)
     \<and> fdiv (py_sum series) (Fin (real (length series))) = Inr avg
     \<and> smin \<in> set series \<and> smin \<noteq> NaN \<and> (\<forall>x\<in>set series. x \<noteq> NaN \<longrightarrow> fle smin x)
     \<and> smax \<in> set series \<and> smax \<noteq> NaN \<and> (\<forall>x\<in>set series. x \<noteq> NaN \<longrightarrow> fle x smax)
     \<and> min_idx < length series \<and> series ! min_idx = smin \<and> (\<forall>k<min_idx. series ! k \<noteq> smin)
     \<and> max_idx < length series \<and> series ! max_idx = smax \<and> (\<forall>k<max_idx. series ! k \<noteq> smax)"
proof -
  from compute_series_stats_run [OF ne] obtain smin smax avg i j where
    a: "py_min (\<lambda>x. x) series = Inr smin" and b: "py_max (\<lambda>x. x) series = Inr smax"
    and c: "fdiv (py_sum series) (Fin (real (length series))) = Inr avg"
    and i: "py_min (\<lambda>i. series ! i) [0 ..< length series] = Inr i"
    and j: "py_max (\<lambda>i. series ! i) [0 ..< length series] = Inr j"
    and r: "compute_series_stats series =
         Inr (smin, smax, avg, max_args (fabs smin) [fabs smax, Fin (1 / 10 ^ 9)], i, j)"
    by blast
  from py_min_value_props [OF ne hd] a have
    smin: "smin \<in> set series" "smin \<noteq> NaN" "\<forall>x\<in>set series. x \<noteq> NaN \<longrightarrow> fle smin x"
    by auto
  from py_max_value_props [OF ne hd] b have
    smax: "smax \<in> set series" "smax \<noteq> NaN" "\<forall>x\<in>set series. x \<noteq> NaN \<longrightarrow> fle x smax"
    by auto
  from py_min_index_props [OF ne hd] i have
    mi: "i < length series" "series ! i \<noteq> NaN" "\<forall>x\<in>set series. x \<noteq> NaN \<longrightarrow> fle (series ! i) x"
      "\<forall>k<i. series ! k \<noteq> series ! i"
    by auto
  from py_max_index_props [OF ne hd] j have
    mj: "j < length series" "series ! j \<noteq> NaN" "\<forall>x\<in>set series. x \<noteq> NaN \<longrightarrow> fle x (series ! j)"
      "\<forall>k<j. series ! k \<noteq> series ! j"
    by auto
  have "series ! i \<in> set series" using mi(1) by simp
  with smin(3) mi(2) have "fle smin (series ! i)" by blast
  moreover from mi(3) smin(1,2) have "fle (series ! i) smin" by blast
  ultimately have ei: "series ! i = smin" by (rule fle_antisym [symmetric])
  have "series ! j \<in> set series" using mj(1) by simp
  with smax(3) mj(2) have "fle (series ! j) smax" by blast
  moreover from mj(3) smax(1,2) have "fle smax (series ! j)" by blast
  ultimately have ej: "series ! j = smax" by (rule fle_antisym)
  from r c smin smax mi(1) mj(1) ei ej mi(4) [unfolded ei] mj(4) [unfolded ej]
  show ?thesis by blast
qed




lemma stats_nan_between:
  "compute_series_stats [Fin 1, NaN, Fin 0] = Inr (Fin 0, Fin 1, NaN, Fin 1, 2, 0)"
  by (simp add: compute_series_stats_def py_sum_def max_args_def upt_rec fl_small)


lemma stats_nan_skill:
  "compute_series_stats [NaN, Fin 2] = Inr (NaN, NaN, NaN, NaN, 0, 0)"
  by (simp add: compute_series_stats_def py_sum_def max_args_def upt_rec)






text \<open>
  Claim C6, as amended.  For every non-empty series whose first element is not NaN, the
  span that \<^verbatim>\<open>compute_series_stats\<close> returns is the largest of the absolute value of the
  minimum, the absolute value of the maximum and \<^verbatim>\<open>1e-9\<close>: it is one of the three, at
  least each of them, and positive, also for a series of zeros.
\<close>

theorem series_stats_span:
  assumes "series \<noteq> []" and "hd series \<noteq> NaN"
  shows "\<exists>smin smax avg sp min_idx max_idx.
     compute_series_stats series = Inr (smin, smax, avg, sp, min_idx, max_idx)
     \<and> (sp = fabs smin \<or> sp = fabs smax \<or> sp = Fin (1 / 10 ^ 9))
     \<and> fle (fabs smin) sp \<and> fle (fabs smax) sp \<and> fle (Fin (1 / 10 ^ 9)) sp
     \<and> flt (Fin 0) sp
     \<and> (\<forall>rs. series = map Fin rs \<longrightarrow>
           sp = Fin (max (max \<bar>Min (set rs)\<bar> \<bar>Max (set rs)\<bar>) (1 / 10 ^ 9)))"
proof -
  from compute_series_stats_props [OF assms] obtain smin smax avg i j where
    r: "compute_series_stats series =
       Inr (smin, smax, avg, max_args (fabs smin) [fabs smax, Fin (1 / 10 ^ 9)], i, j)"
    and smin: "smin \<in> set series" "smin \<noteq> NaN" "\<forall>x\<in>set series. x \<noteq> NaN \<longrightarrow> fle smin x"
    and smax: "smax \<in> set series" "smax \<noteq> NaN" "\<forall>x\<in>set series. x \<noteq> NaN \<longrightarrow> fle x smax"
    by blast
  define sp where "sp = max_args (fabs smin) [fabs smax, Fin (1 / 10 ^ 9)]"
  have "fabs smin \<noteq> NaN" "fabs smax \<noteq> NaN" "Fin (1 / 10 ^ 9) \<noteq> NaN"
    using smin(2) smax(2) by (simp_all add: fabs_NaN)
  from max_args_three [OF this] have
    sp: "sp = fabs smin \<or> sp = fabs smax \<or> sp = Fin (1 / 10 ^ 9)"
      "fle (fabs smin) sp" "fle (fabs smax) sp" "fle (Fin (1 / 10 ^ 9)) sp"
    unfolding sp_def by blast+
  have "flt (Fin 0) (Fin (1 / 10 ^ 9))" by simp
  then have pos: "flt (Fin 0) sp" using sp(4) by (rule flt_fle_trans)
  have fin: "sp = Fin (max (max \<bar>Min (set rs)\<bar> \<bar>Max (set rs)\<bar>) (1 / 10 ^ 9))"
    if "series = map Fin rs" for rs
  proof -
    from smin(1) that obtain a where a: "smin = Fin a" by auto
    from smax(1) that obtain b where b: "smax = Fin b" by auto
    from smin(1,3) have "Fin a \<in> set (map Fin rs)"
      "\<forall>x\<in>set (map Fin rs). x \<noteq> NaN \<longrightarrow> fle (Fin a) x"
      by (simp_all only: that a)
    then have a': "a = Min (set rs)" by (rule Fin_least)
    from smax(1,3) have "Fin b \<in> set (map Fin rs)"
      "\<forall>x\<in>set (map Fin rs). x \<noteq> NaN \<longrightarrow> fle x (Fin b)"
      by (simp_all only: that b)
    then have b': "b = Max (set rs)" by (rule Fin_greatest)
    show ?thesis unfolding sp_def a b a' [symmetric] b' [symmetric]
      by (simp add: max_args_Fin)
  qed
  from r [folded sp_def] sp pos fin show ?thesis by blast
qed

lemma stats_zero:
  "compute_series_stats [Fin 0, Fin 0] = Inr (Fin 0, Fin 0, Fin 0, Fin (1 / 10 ^ 9), 0, 0)"
  by (simp add: compute_series_stats_def py_sum_def max_args_def upt_rec fl_small)

theorem series_stats_span_witness:
  "[Fin 0, Fin 0] \<noteq> [] \<and> hd [Fin 0, Fin 0] \<noteq> NaN
   \<and> compute_series_stats [Fin 0, Fin 0] = Inr (Fin 0, Fin 0, Fin 0, Fin (1 / 10 ^ 9), 0, 0)
   \<and> fle (fabs (Fin 0)) (Fin (1 / 10 ^ 9)) \<and> flt (Fin 0) (Fin (1 / 10 ^ 9))
   \<and> [Fin 1, NaN, Fin 0] \<noteq> [] \<and> hd [Fin 1, NaN, Fin 0] \<noteq> NaN
   \<and> compute_series_stats [Fin 1, NaN, Fin 0] = Inr (Fin 0, Fin 1, NaN, Fin 1, 2, 0)
   \<and> flt (Fin 0) (Fin 1)"
proof -
  have ne: "[Fin 0, Fin 0] \<noteq> []" and hd: "hd [Fin 0, Fin 0] \<noteq> NaN" by simp_all
  from series_stats_span [OF ne hd] obtain smin smax avg sp min_idx max_idx where
    r: "compute_series_stats [Fin 0, Fin 0] = Inr (smin, smax, avg, sp, min_idx, max_idx)"
    and a: "fle (fabs smin) sp" "flt (Fin 0) sp"
    by blast
  from r have e: "smin = Fin 0" "sp = Fin (1 / 10 ^ 9)"
    unfolding stats_zero by auto
  have ne': "[Fin 1, NaN, Fin 0] \<noteq> []" and hd': "hd [Fin 1, NaN, Fin 0] \<noteq> NaN" by simp_all
  from series_stats_span [OF ne' hd'] obtain smin' smax' avg' sp' min_idx' max_idx' where
    r': "compute_series_stats [Fin 1, NaN, Fin 0]
          = Inr (smin', smax', avg', sp', min_idx', max_idx')"
    and a': "flt (Fin 0) sp'"
    by blast
  from r' have e': "sp' = Fin 1" unfolding stats_nan_between by auto
  from a [unfolded e] a' [unfolded e'] ne hd ne' hd' stats_zero stats_nan_between
  show ?thesis by (intro conjI)
qed

text \<open>
  The claim as stated fails on a series that starts with NaN: the span is NaN, which is
  neither positive nor at least the absolute value of the minimum.
\<close>

theorem series_stats_span_counterexample:
  "compute_series_stats [NaN, Fin 2] = Inr (NaN, NaN, NaN, NaN, 0, 0)
   \<and> \<not> flt (Fin 0) NaN \<and> \<not> fle (fabs NaN) NaN"
  using stats_nan_skill by (simp add: fle_def)

section \<open>Properties of the chart renderer and the driver\<close>

lemma stats_empty: "compute_series_stats [] = Inl ValueError"
  by (simp add: compute_series_stats_def)

lemma annotate_nonempty:
  assumes "series \<noteq> []"
  shows "annotate_series_stats fmt2 ax indices series color label_prefix \<noteq> Inl ValueError
     \<and> (length indices = length series \<longrightarrow>
          (\<exists>ax'. annotate_series_stats fmt2 ax indices series color label_prefix = Inr ax'
             \<and> ylabel ax' = ylabel ax \<and> ylim ax' \<noteq> None
             \<and> length (artists ax') = length (artists ax) + 3))"
proof -
  from compute_series_stats_run [OF assms] obtain smin smax avg sp i j where
    r: "compute_series_stats series = Inr (smin, smax, avg, sp, i, j)"
    and i: "i < length series" and j: "j < length series"
    by blast
  have 1: "annotate_series_stats fmt2 ax indices series color label_prefix \<noteq> Inl ValueError"
    unfolding annotate_series_stats_def r item_def by simp
  have 2: "\<exists>ax'. annotate_series_stats fmt2 ax indices series color label_prefix = Inr ax'
             \<and> ylabel ax' = ylabel ax \<and> ylim ax' \<noteq> None
             \<and> length (artists ax') = length (artists ax) + 3"
    if "length indices = length series"
    unfolding annotate_series_stats_def r item_def using i j that by simp
  from 1 2 show ?thesis by blast
qed


lemma guarded_annotate:
  "(if series \<noteq> [] then annotate_series_stats fmt2 ax indices series color label_prefix
    else Inr ax) \<noteq> Inl ValueError
   \<and> (length indices = length series \<longrightarrow>
        (\<exists>ax'. (if series \<noteq> [] then annotate_series_stats fmt2 ax indices series color label_prefix
                 else Inr ax) = Inr ax'
           \<and> (series = [] \<longrightarrow> ax' = ax)
           \<and> (series \<noteq> [] \<longrightarrow> ylim ax' \<noteq> None
                 \<and> length (artists ax') = length (artists ax) + 3)))"
proof (cases "series = []")
  case True
  then show ?thesis by simp
next
  case False
  with annotate_nonempty [OF False, of fmt2 ax indices color label_prefix] show ?thesis
    by (simp only: if_True not_False_eq_True simp_thms) blast
qed

lemma generate_chart_guard:
  "generate_chart fmt2 game_indices kd_series skill_series timestamps_sorted \<noteq> Inl ValueError
   \<and> (length game_indices = length kd_series \<and> length game_indices = length skill_series \<longrightarrow>
        (\<exists>fig. generate_chart fmt2 game_indices kd_series skill_series timestamps_sorted = Inr fig
           \<and> (kd_series = [] \<longrightarrow> ylim (ax1 fig) = None
                 \<and> artists (ax1 fig) = [Line game_indices kd_series KD_COLOR KD_LABEL])
           \<and> (kd_series \<noteq> [] \<longrightarrow> ylim (ax1 fig) \<noteq> None \<and> length (artists (ax1 fig)) = 4)
           \<and> (skill_series = [] \<longrightarrow> ylim (ax2 fig) = None
                 \<and> artists (ax2 fig) = [Line game_indices skill_series SKILL_COLOR SKILL_LABEL])
           \<and> (skill_series \<noteq> [] \<longrightarrow> ylim (ax2 fig) \<noteq> None \<and> length (artists (ax2 fig)) = 4)))"
proof -
  define a1 where "a1 = \<lparr>ylabel = KD_LABEL, ylim = None,
                artists = [Line game_indices kd_series KD_COLOR KD_LABEL]\<rparr>"
  define a2 where "a2 = \<lparr>ylabel = SKILL_LABEL, ylim = None,
                artists = [Line game_indices skill_series SKILL_COLOR SKILL_LABEL]\<rparr>"
  define r1 where "r1 = (if kd_series \<noteq> []
            then annotate_series_stats fmt2 a1 game_indices kd_series KD_COLOR KD_LABEL
            else Inr a1)"
  define r2 where "r2 = (if skill_series \<noteq> []
            then annotate_series_stats fmt2 a2 game_indices skill_series SKILL_COLOR SKILL_LABEL
            else Inr a2)"
  have g: "generate_chart fmt2 game_indices kd_series skill_series timestamps_sorted =
     (case r1 of
        Inl e \<Rightarrow> Inl e
      | Inr a1' \<Rightarrow>
     (case r2 of
        Inl e \<Rightarrow> Inl e
      | Inr a2' \<Rightarrow>
          Inr \<lparr>ax1 = a1', ax2 = a2',
               legend = map label_of (artists a1') @ map label_of (artists a2'),
               chart_title = ''Game Statistics Over Time'',
               xticks = py_range 1 (length timestamps_sorted + 1) XTICK_STEP\<rparr>))"
    unfolding generate_chart_def Let_def r1_def r2_def a1_def a2_def ..
  have n1: "r1 \<noteq> Inl ValueError" unfolding r1_def using guarded_annotate by blast
  have n2: "r2 \<noteq> Inl ValueError" unfolding r2_def using guarded_annotate by blast
  have 1: "generate_chart fmt2 game_indices kd_series skill_series timestamps_sorted \<noteq> Inl ValueError"
    unfolding g using n1 n2 by (auto split: sum.splits)
  have 2: "\<exists>fig. generate_chart fmt2 game_indices kd_series skill_series timestamps_sorted = Inr fig
           \<and> (kd_series = [] \<longrightarrow> ylim (ax1 fig) = None
                 \<and> artists (ax1 fig) = [Line game_indices kd_series KD_COLOR KD_LABEL])
           \<and> (kd_series \<noteq> [] \<longrightarrow> ylim (ax1 fig) \<noteq> None \<and> length (artists (ax1 fig)) = 4)
           \<and> (skill_series = [] \<longrightarrow> ylim (ax2 fig) = None
                 \<and> artists (ax2 fig) = [Line game_indices skill_series SKILL_COLOR SKILL_LABEL])
           \<and> (skill_series \<noteq> [] \<longrightarrow> ylim (ax2 fig) \<noteq> None \<and> length (artists (ax2 fig)) = 4)"
    if l: "length game_indices = length kd_series" "length game_indices = length skill_series"
  proof -
    from guarded_annotate [of kd_series fmt2 a1 game_indices KD_COLOR KD_LABEL] l(1)
    obtain a1' where k1: "r1 = Inr a1'" "kd_series = [] \<longrightarrow> a1' = a1"
      "kd_series \<noteq> [] \<longrightarrow> ylim a1' \<noteq> None \<and> length (artists a1') = length (artists a1) + 3"
      unfolding r1_def by blast
    from guarded_annotate [of skill_series fmt2 a2 game_indices SKILL_COLOR SKILL_LABEL] l(2)
    obtain a2' where k2: "r2 = Inr a2'" "skill_series = [] \<longrightarrow> a2' = a2"
      "skill_series \<noteq> [] \<longrightarrow> ylim a2' \<noteq> None \<and> length (artists a2') = length (artists a2) + 3"
      unfolding r2_def by blast
    show ?thesis
      unfolding g k1(1) k2(1) using k1(2,3) k2(2,3) by (simp add: a1_def a2_def)
  qed
  from 1 2 show ?thesis by blast
qed

lemma main_errors:
  assumes "main fmt2 py_int py_float csv_files answer = Inl e"
  shows "\<exists>rows. csv_files (py_strip [CHR 0x22, CHR 0x27] answer) = Some rows
           \<and> read_game_data py_int py_float rows = Inl e"
proof -
  define file_path where "file_path = py_strip [CHR 0x22, CHR 0x27] answer"
  show ?thesis
  proof (cases "csv_files file_path")
    case None
    with assms show ?thesis unfolding main_def Let_def file_path_def by simp
  next
    case (Some rows)
    show ?thesis
    proof (cases "read_game_data py_int py_float rows")
      case (Inl e')
      with assms Some show ?thesis unfolding main_def Let_def file_path_def by simp
    next
      case (Inr game_data)
      let ?ks = "sort (keys game_data)"
      let ?kd = "map (\<lambda>ts. KD (the (DAList.lookup game_data ts))) ?ks"
      let ?sk = "map (\<lambda>ts. Skill (the (DAList.lookup game_data ts))) ?ks"
      let ?gi = "[1 .. int (length (keys game_data))]"
      have "length ?gi = length ?kd \<and> length ?gi = length ?sk" by simp
      with generate_chart_guard [of fmt2 ?gi ?kd ?sk ?ks] obtain fig where
        fig: "generate_chart fmt2 ?gi ?kd ?sk ?ks = Inr fig" by blast
      have "main fmt2 py_int py_float csv_files answer \<noteq> Inl e"
        unfolding main_def Let_def
        using Some Inr fig
        by (simp add: file_path_def [symmetric] extract_series_eq save_table_pdf_eq)
      with assms show ?thesis by simp
    qed
  qed
qed


text \<open>
  Claim C7.  \<^verbatim>\<open>compute_series_stats\<close> fails on the empty series with \<^verbatim>\<open>ValueError\<close>, and the
  pipeline never reaches that failure: \<^verbatim>\<open>generate_chart\<close> never fails with it; on series
  as long as the positions it returns a figure in which an empty series has its line but
  neither limits, markers nor reference line, and a non-empty series has all of them; and
  an exception that the script or a builtin raises in \<^verbatim>\<open>main\<close> is one of
  \<^verbatim>\<open>read_game_data\<close>.
\<close>

theorem empty_series_never_annotated:
  "compute_series_stats [] = Inl ValueError
   \<and> generate_chart fmt2 game_indices kd_series skill_series timestamps_sorted \<noteq> Inl ValueError
   \<and> (length game_indices = length kd_series \<and> length game_indices = length skill_series \<longrightarrow>
        (\<exists>fig. generate_chart fmt2 game_indices kd_series skill_series timestamps_sorted = Inr fig
           \<and> (kd_series = [] \<longrightarrow> ylim (ax1 fig) = None
                 \<and> artists (ax1 fig) = [Line game_indices kd_series KD_COLOR KD_LABEL])
           \<and> (kd_series \<noteq> [] \<longrightarrow> ylim (ax1 fig) \<noteq> None \<and> length (artists (ax1 fig)) = 4)
           \<and> (skill_series = [] \<longrightarrow> ylim (ax2 fig) = None
                 \<and> artists (ax2 fig) = [Line game_indices skill_series SKILL_COLOR SKILL_LABEL])
           \<and> (skill_series \<noteq> [] \<longrightarrow> ylim (ax2 fig) \<noteq> None \<and> length (artists (ax2 fig)) = 4)))
   \<and> (main fmt2 py_int py_float csv_files answer = Inl e \<longrightarrow>
        (\<exists>rows. csv_files (py_strip [CHR 0x22, CHR 0x27] answer) = Some rows
           \<and> read_game_data py_int py_float rows = Inl e))"
  using stats_empty generate_chart_guard [of fmt2 game_indices kd_series skill_series timestamps_sorted]
    main_errors [of fmt2 py_int py_float csv_files answer e]
  by (intro conjI impI) blast+

lemma chart_empty:
  "generate_chart demo_fmt2 [] [] [] [] =
     Inr \<lparr>ax1 = \<lparr>ylabel = ''K/D Ratio'', ylim = None,
                  artists = [Line [] [] ''cornflowerblue'' ''K/D Ratio'']\<rparr>,
          ax2 = \<lparr>ylabel = ''Skill'', ylim = None,
                  artists = [Line [] [] ''indianred'' ''Skill'']\<rparr>,
          legend = [''K/D Ratio'', ''Skill''],
          chart_title = ''Game Statistics Over Time'',
          xticks = []\<rparr>"
  by (simp add: generate_chart_def py_range_def KD_LABEL_def SKILL_LABEL_def KD_COLOR_def
        SKILL_COLOR_def XTICK_STEP_def)

lemma stats_kd: "compute_series_stats [Fin 5, Fin 0, Fin 1] = Inr (Fin 0, Fin 5, Fin 2, Fin 5, 1, 0)"
  by (simp add: compute_series_stats_def py_sum_def max_args_def upt_rec fl_small)

lemma stats_skill: "compute_series_stats [Fin (3 / 2), Fin 2, Fin (3 / 4)] = Inr (Fin (3 / 4), Fin 2, Fin (17 / 12), Fin 2, 2, 1)"
  by (simp add: compute_series_stats_def py_sum_def max_args_def upt_rec fl_small)

lemma chart_demo:
  "generate_chart demo_fmt2 [1, 2, 3] [Fin 5, Fin 0, Fin 1] [Fin (3 / 2), Fin 2, Fin (3 / 4)] [''T1'', ''T2'', ''T3''] =
     Inr \<lparr>ax1 = \<lparr>ylabel = ''K/D Ratio'', ylim = Some (Fin (- 5), Fin 5),
                  artists = [Line [1, 2, 3] [Fin 5, Fin 0, Fin 1] ''cornflowerblue'' ''K/D Ratio'',
                             Marker 2 (Fin 0) ''cornflowerblue'' ''Min K/D Ratio: 0.00'',
                             Marker 1 (Fin 5) ''cornflowerblue'' ''Max K/D Ratio: 5.00'',
                             HLine (Fin 2) ''cornflowerblue'' ''Avg K/D Ratio: 2.00'']\<rparr>,
          ax2 = \<lparr>ylabel = ''Skill'', ylim = Some (Fin (- 2), Fin 2),
                  artists = [Line [1, 2, 3] [Fin (3 / 2), Fin 2, Fin (3 / 4)] ''indianred'' ''Skill'',
                             Marker 3 (Fin (3 / 4)) ''indianred'' ''Min Skill: 0.75'',
                             Marker 2 (Fin 2) ''indianred'' ''Max Skill: 2.00'',
                             HLine (Fin (17 / 12)) ''indianred'' ''Avg Skill: 1.42'']\<rparr>,
          legend = [''K/D Ratio'', ''Min K/D Ratio: 0.00'', ''Max K/D Ratio: 5.00'',
                    ''Avg K/D Ratio: 2.00'', ''Skill'', ''Min Skill: 0.75'', ''Max Skill: 2.00'',
                    ''Avg Skill: 1.42''],
          chart_title = ''Game Statistics Over Time'',
          xticks = [1]\<rparr>"
  by (simp add: generate_chart_def annotate_series_stats_def stats_kd stats_skill item_def
        py_range_def KD_LABEL_def SKILL_LABEL_def KD_COLOR_def SKILL_COLOR_def XTICK_STEP_def
        demo_fmt2_def)

lemma main_bad_kills:
  "main demo_fmt2 demo_int demo_float
     [''games.csv'' \<mapsto> [demo_row TS_KEY ''T1'' ''1.50'' ''ten'' ''2'']] ''games.csv''
   = Inl ValueError"
proof -
  have strip: "py_strip [CHR 0x22, CHR 0x27] ''games.csv'' = ''games.csv''"
    by (simp add: py_strip_def)
  have "parse_row demo_int demo_float (demo_row TS_KEY ''T1'' ''1.50'' ''ten'' ''2'') = Inl ValueError"
    by (simp add: parse_row_def row_ts_def py_or_def row_get_def truthy_def field_def
          demo_row_def demo_int_def TS_KEY_def BOM_TS_KEY_def)
  then show ?thesis
    unfolding main_def strip by (simp add: read_game_data_def)
qed

theorem empty_series_never_annotated_witness:
  "length ([] :: int list) = length ([] :: pyfloat list)
   \<and> generate_chart demo_fmt2 [] [] [] [] =
     Inr \<lparr>ax1 = \<lparr>ylabel = ''K/D Ratio'', ylim = None,
                  artists = [Line [] [] ''cornflowerblue'' ''K/D Ratio'']\<rparr>,
          ax2 = \<lparr>ylabel = ''Skill'', ylim = None,
                  artists = [Line [] [] ''indianred'' ''Skill'']\<rparr>,
          legend = [''K/D Ratio'', ''Skill''],
          chart_title = ''Game Statistics Over Time'',
          xticks = []\<rparr>
   \<and> length [1, 2, 3 :: int] = length [Fin 5, Fin 0, Fin 1]
   \<and> length [1, 2, 3 :: int] = length [Fin (3 / 2), Fin 2, Fin (3 / 4)]
   \<and> (\<exists>fig. generate_chart demo_fmt2 [1, 2, 3] [Fin 5, Fin 0, Fin 1] [Fin (3 / 2), Fin 2, Fin (3 / 4)] [''T1'', ''T2'', ''T3'']
               = Inr fig
          \<and> ylim (ax1 fig) = Some (Fin (- 5), Fin 5) \<and> length (artists (ax1 fig)) = 4
          \<and> ylim (ax2 fig) = Some (Fin (- 2), Fin 2) \<and> length (artists (ax2 fig)) = 4)
   \<and> main demo_fmt2 demo_int demo_float
        [''games.csv'' \<mapsto> [demo_row TS_KEY ''T1'' ''1.50'' ''ten'' ''2'']] ''games.csv''
        = Inl ValueError
   \<and> read_game_data demo_int demo_float [demo_row TS_KEY ''T1'' ''1.50'' ''ten'' ''2'']
        = Inl ValueError"
proof -
  have l0: "length ([] :: int list) = length ([] :: pyfloat list)
      \<and> length ([] :: int list) = length ([] :: pyfloat list)" by simp
  have l3: "length [1, 2, 3 :: int] = length [Fin 5, Fin 0, Fin 1]
      \<and> length [1, 2, 3 :: int] = length [Fin (3 / 2), Fin 2, Fin (3 / 4)]" by simp
  from empty_series_never_annotated [of demo_fmt2 "[1, 2, 3]" "[Fin 5, Fin 0, Fin 1]" "[Fin (3 / 2), Fin 2, Fin (3 / 4)]"
      "[''T1'', ''T2'', ''T3'']" demo_int demo_float
      "[''games.csv'' \<mapsto> [demo_row TS_KEY ''T1'' ''1.50'' ''ten'' ''2'']]" "''games.csv''"
      ValueError] l3 main_bad_kills
  obtain fig rows where
    f: "generate_chart demo_fmt2 [1, 2, 3] [Fin 5, Fin 0, Fin 1] [Fin (3 / 2), Fin 2, Fin (3 / 4)] [''T1'', ''T2'', ''T3''] = Inr fig"
      "length (artists (ax1 fig)) = 4" "length (artists (ax2 fig)) = 4"
    and m: "[''games.csv'' \<mapsto> [demo_row TS_KEY ''T1'' ''1.50'' ''ten'' ''2'']]
              (py_strip [CHR 0x22, CHR 0x27] ''games.csv'') = Some rows"
      "read_game_data demo_int demo_float rows = Inl ValueError"
    by auto
  from m(1) have "rows = [demo_row TS_KEY ''T1'' ''1.50'' ''ten'' ''2'']"
    by (simp add: py_strip_def)
  with m(2) have rd: "read_game_data demo_int demo_float
      [demo_row TS_KEY ''T1'' ''1.50'' ''ten'' ''2''] = Inl ValueError" by simp
  from f(1) have "ylim (ax1 fig) = Some (Fin (- 5), Fin 5)" "ylim (ax2 fig) = Some (Fin (- 2), Fin 2)"
    unfolding chart_demo by auto
  with f have "\<exists>fig. generate_chart demo_fmt2 [1, 2, 3] [Fin 5, Fin 0, Fin 1] [Fin (3 / 2), Fin 2, Fin (3 / 4)] [''T1'', ''T2'', ''T3'']
               = Inr fig
          \<and> ylim (ax1 fig) = Some (Fin (- 5), Fin 5) \<and> length (artists (ax1 fig)) = 4
          \<and> ylim (ax2 fig) = Some (Fin (- 2), Fin 2) \<and> length (artists (ax2 fig)) = 4"
    by blast
  with l3 rd main_bad_kills chart_empty show ?thesis by simp
qed

section \<open>Duplicate timestamps\<close>

lemma parse_row_NoneD:
  "parse_row py_int py_float r = Inr None \<Longrightarrow> row_ts r = None \<or> row_ts r = Some []"
  by (auto simp: parse_row_def split: option.splits if_splits sum.splits)

lemma stamps_Nil: "stamps [] = []"
  by (simp add: stamps_def)

lemma stamps_skip: "parse_row py_int py_float r = Inr None \<Longrightarrow> stamps (r # rows) = stamps rows"
  by (auto simp: stamps_def dest: parse_row_NoneD)

lemma stamps_store:
  "parse_row py_int py_float r = Inr (Some (ts, v)) \<Longrightarrow> stamps (r # rows) = ts # stamps rows"
  by (auto simp: stamps_def dest: parse_row_SomeD)

lemma stamps_append: "stamps (a @ b) = stamps a @ stamps b"
  by (simp add: stamps_def)

lemma read_rows_keys:
  "read_rows py_int py_float rows d0 = Inr d \<Longrightarrow> set (keys d) = set (keys d0) \<union> set (stamps rows)"
proof (induction rows arbitrary: d0)
  case Nil
  then show ?case by (simp add: stamps_Nil)
next
  case (Cons r rows)
  show ?case
  proof (cases "parse_row py_int py_float r")
    case (Inl e)
    with Cons.prems show ?thesis by simp
  next
    case (Inr res)
    show ?thesis
    proof (cases res)
      case None
      with Inr Cons.prems have "read_rows py_int py_float rows d0 = Inr d" by simp
      from Cons.IH [OF this] Inr None show ?thesis by (simp add: stamps_skip)
    next
      case (Some p)
      obtain ts w where p: "p = (ts, w)" by (cases p)
      from Inr Some p Cons.prems
      have "read_rows py_int py_float rows (DAList.update ts w d0) = Inr d" by simp
      from Cons.IH [OF this] have "set (keys d) = set (keys (DAList.update ts w d0)) \<union> set (stamps rows)" .
      moreover have "stamps (r # rows) = ts # stamps rows"
        using Inr Some p by (simp add: stamps_store)
      ultimately show ?thesis by (auto simp: keys_update split: if_splits)
    qed
  qed
qed

lemma read_rows_keeps:
  "read_rows py_int py_float rows d0 = Inr d \<Longrightarrow> T \<notin> set (stamps rows) \<Longrightarrow>
     DAList.lookup d T = DAList.lookup d0 T"
proof (induction rows arbitrary: d0)
  case Nil
  then show ?case by simp
next
  case (Cons r rows)
  show ?case
  proof (cases "parse_row py_int py_float r")
    case (Inl e)
    with Cons.prems show ?thesis by simp
  next
    case (Inr res)
    show ?thesis
    proof (cases res)
      case None
      with Inr Cons.prems have "read_rows py_int py_float rows d0 = Inr d"
        "T \<notin> set (stamps rows)" by (simp_all add: stamps_skip)
      then show ?thesis by (rule Cons.IH)
    next
      case (Some p)
      obtain ts w where p: "p = (ts, w)" by (cases p)
      from Inr Some p have st: "stamps (r # rows) = ts # stamps rows"
        by (simp add: stamps_store)
      from Inr Some p Cons.prems(1)
      have run: "read_rows py_int py_float rows (DAList.update ts w d0) = Inr d" by simp
      from Cons.prems(2) st have "T \<noteq> ts" "T \<notin> set (stamps rows)" by auto
      with Cons.IH [OF run] show ?thesis by (simp add: lookup_update)
    qed
  qed
qed

lemma last_row:
  "T \<in> set (stamps rows) \<Longrightarrow>
     \<exists>pre r post. rows = pre @ r # post \<and> row_ts r = Some T \<and> T \<noteq> [] \<and> T \<notin> set (stamps post)"
proof (induction rows)
  case Nil
  then show ?case by (simp add: stamps_Nil)
next
  case (Cons r rows)
  show ?case
  proof (cases "T \<in> set (stamps rows)")
    case True
    from Cons.IH [OF True] obtain pre r' post where
      "rows = pre @ r' # post" "row_ts r' = Some T" "T \<noteq> []" "T \<notin> set (stamps post)"
      by blast
    then have "r # rows = (r # pre) @ r' # post \<and> row_ts r' = Some T \<and> T \<noteq> []
        \<and> T \<notin> set (stamps post)" by simp
    then show ?thesis by blast
  next
    case False
    have "stamps (r # rows) = stamps [r] @ stamps rows"
      using stamps_append [of "[r]" rows] by simp
    with Cons.prems False have "T \<in> set (stamps [r])" by simp
    then have "row_ts r = Some T \<and> T \<noteq> []"
      by (auto simp: stamps_def split: option.splits if_splits)
    with False have "r # rows = [] @ r # rows \<and> row_ts r = Some T \<and> T \<noteq> []
        \<and> T \<notin> set (stamps rows)" by simp
    then show ?thesis by blast
  qed
qed

lemma last_write_wins:
  assumes run: "read_rows py_int py_float rows d0 = Inr d" and T: "T \<in> set (stamps rows)"
  shows "\<exists>pre r post v. rows = pre @ r # post \<and> row_ts r = Some T \<and> T \<notin> set (stamps post)
           \<and> parse_row py_int py_float r = Inr (Some (T, v)) \<and> DAList.lookup d T = Some v"
proof -
  from last_row [OF T] obtain pre r post where
    d: "rows = pre @ r # post" and ts: "row_ts r = Some T" "T \<noteq> []"
    and post: "T \<notin> set (stamps post)"
    by blast
  from run obtain d1 where d1: "read_rows py_int py_float pre d0 = Inr d1"
    and rest: "read_rows py_int py_float (r # post) d1 = Inr d"
    unfolding d read_rows_append by (auto split: sum.splits)
  from rest obtain res where res: "parse_row py_int py_float r = Inr res"
    by (auto split: sum.splits)
  with ts obtain v where v: "res = Some (T, v)"
    by (auto simp: parse_row_def split: sum.splits)
  from rest res v have "read_rows py_int py_float post (DAList.update T v d1) = Inr d" by simp
  from read_rows_keeps [OF this post] have "DAList.lookup d T = Some v" by simp
  with d ts post res v show ?thesis by blast
qed

lemma distinct_count_one:
  "distinct xs \<Longrightarrow> x \<in> set xs \<Longrightarrow> length (filter (\<lambda>k. k = x) xs) = 1"
proof (induction xs)
  case Nil
  then show ?case by simp
next
  case (Cons a xs)
  show ?case
  proof (cases "a = x")
    case True
    with Cons.prems have "x \<notin> set xs" by simp
    then have "filter (\<lambda>k. k = x) xs = []" by (auto simp: filter_empty_conv)
    with True show ?thesis by simp
  next
    case False
    with Cons show ?thesis by simp
  qed
qed


lemma demo_parse1':
  "parse_row demo_int demo_float (demo_row TS_KEY ''T1'' ''0.75'' ''5'' ''5'')
     = Inr (Some (''T1'', rec3))"
  by (simp add: parse_row_def row_ts_def py_or_def row_get_def truthy_def field_def demo_row_def
        demo_int_def demo_float_def TS_KEY_def BOM_TS_KEY_def parse_kd_ratio_demo rec3_def)

lemma table_rows_total:
  "\<exists>evs. save_table_pdf fmt2 d path = Inr evs
     \<and> concat (map written_rows evs)
         = map (\<lambda>ts. row_cells fmt2 ts (the (DAList.lookup d ts))) (sort (keys d))"
proof -
  let ?tot = "(length (keys d) + 39) div 40"
  have "?tot * 40 \<ge> length (keys d)" by presburger
  then have "take (?tot * 40) (sort (keys d)) = sort (keys d)" by simp
  then show ?thesis
    unfolding save_table_pdf_eq
    using written_rows_pages [of path _ TABLE_HEADERS _ 40 "sort (keys d)" ?tot]
    by simp
qed

text \<open>
  Claim C4.  When two of the rows that carry a timestamp share the timestamp \<open>T\<close>, the
  dataset has exactly one record under \<open>T\<close>, and it is the record of the last row with
  that timestamp; the dataset has one record for each distinct timestamp, fewer than the
  N rows that carry one.  When the two rows are the only ones to share a timestamp, the
  dataset, the series of the chart and the data rows of the table count N - 1.
\<close>

theorem duplicate_timestamp_last_wins:
  assumes run: "read_game_data py_int py_float rows = Inr game_data"
    and dup: "stamps rows = xs @ T # ys @ T # zs"
  shows "length (filter (\<lambda>k. k = T) (keys game_data)) = 1
     \<and> (\<exists>pre r post v. rows = pre @ r # post \<and> row_ts r = Some T \<and> T \<notin> set (stamps post)
           \<and> parse_row py_int py_float r = Inr (Some (T, v))
           \<and> DAList.lookup game_data T = Some v)
     \<and> length (keys game_data) = card (set (stamps rows))
     \<and> length (keys game_data) < length (stamps rows)
     \<and> (distinct (xs @ ys @ T # zs) \<longrightarrow>
          length (keys game_data) = length (stamps rows) - 1
          \<and> (\<exists>ks kd sk idx. extract_series game_data = Inr (ks, kd, sk, idx)
                \<and> length ks = length (stamps rows) - 1 \<and> length kd = length (stamps rows) - 1
                \<and> length sk = length (stamps rows) - 1 \<and> length idx = length (stamps rows) - 1)
          \<and> (\<exists>evs. save_table_pdf fmt2 game_data path = Inr evs
                \<and> length (concat (map written_rows evs)) = length (stamps rows) - 1))"
proof -
  from run have rr: "read_rows py_int py_float rows DAList.empty = Inr game_data"
    by (simp add: read_game_data_def)
  from read_rows_keys [OF rr] have ks: "set (keys game_data) = set (stamps rows)"
    by (simp add: keys_empty)
  from dup have T: "T \<in> set (stamps rows)" by simp
  with ks have "T \<in> set (keys game_data)" by simp
  with distinct_keys [of game_data] have one: "length (filter (\<lambda>k. k = T) (keys game_data)) = 1"
    by (rule distinct_count_one)
  note lw = last_write_wins [OF rr T]
  have card: "length (keys game_data) = card (set (stamps rows))"
    using distinct_card [OF distinct_keys [of game_data]] ks by simp
  have "\<not> distinct (stamps rows)" unfolding dup by simp
  then have "card (set (stamps rows)) \<noteq> length (stamps rows)"
    using card_distinct by blast
  with card_length [of "stamps rows"] card
  have less: "length (keys game_data) < length (stamps rows)"
    by simp
  have only: "length (keys game_data) = length (stamps rows) - 1
          \<and> (\<exists>ks kd sk idx. extract_series game_data = Inr (ks, kd, sk, idx)
                \<and> length ks = length (stamps rows) - 1 \<and> length kd = length (stamps rows) - 1
                \<and> length sk = length (stamps rows) - 1 \<and> length idx = length (stamps rows) - 1)
          \<and> (\<exists>evs. save_table_pdf fmt2 game_data path = Inr evs
                \<and> length (concat (map written_rows evs)) = length (stamps rows) - 1)"
    if dist: "distinct (xs @ ys @ T # zs)"
  proof -
    have "set (stamps rows) = set (xs @ ys @ T # zs)" unfolding dup by auto
    then have "card (set (stamps rows)) = length (xs @ ys @ T # zs)"
      using distinct_card [OF dist] by simp
    also have "\<dots> = length (stamps rows) - 1" unfolding dup by simp
    finally have n: "length (keys game_data) = length (stamps rows) - 1"
      using card by simp
    from table_rows_total [of fmt2 game_data path] obtain evs where
      evs: "save_table_pdf fmt2 game_data path = Inr evs"
      and all: "concat (map written_rows evs)
         = map (\<lambda>ts. row_cells fmt2 ts (the (DAList.lookup game_data ts))) (sort (keys game_data))"
      by blast
    from arg_cong [OF all, of length]
    have "length (concat (map written_rows evs)) = length (keys game_data)"
      by (simp del: length_concat)
    with evs n have tab: "\<exists>evs. save_table_pdf fmt2 game_data path = Inr evs
                \<and> length (concat (map written_rows evs)) = length (stamps rows) - 1"
      by auto
    have "\<exists>ks kd sk idx. extract_series game_data = Inr (ks, kd, sk, idx)
                \<and> length ks = length (stamps rows) - 1 \<and> length kd = length (stamps rows) - 1
                \<and> length sk = length (stamps rows) - 1 \<and> length idx = length (stamps rows) - 1"
      unfolding extract_series_eq using n by simp
    with n tab show ?thesis by blast
  qed
  from one lw card less only show ?thesis by blast
qed


theorem duplicate_timestamp_last_wins_witness:
  "read_game_data demo_int demo_float
       [demo_row TS_KEY ''T1'' ''1.50'' ''10'' ''2'', demo_row BOM_TS_KEY ''T2'' ''2.00'' ''0'' ''0'',
        demo_row TS_KEY ''T1'' ''0.75'' ''5'' ''5'']
     = Inr (DAList.update ''T1'' rec3 (DAList.update ''T2'' rec2
              (DAList.update ''T1'' rec1 DAList.empty)))
   \<and> stamps [demo_row TS_KEY ''T1'' ''1.50'' ''10'' ''2'', demo_row BOM_TS_KEY ''T2'' ''2.00'' ''0'' ''0'',
        demo_row TS_KEY ''T1'' ''0.75'' ''5'' ''5'']
     = [] @ ''T1'' # [''T2''] @ ''T1'' # []
   \<and> distinct ([] @ [''T2''] @ ''T1'' # [])
   \<and> keys (DAList.update ''T1'' rec3 (DAList.update ''T2'' rec2
              (DAList.update ''T1'' rec1 DAList.empty))) = [''T1'', ''T2'']
   \<and> DAList.lookup (DAList.update ''T1'' rec3 (DAList.update ''T2'' rec2
              (DAList.update ''T1'' rec1 DAList.empty))) ''T1'' = Some rec3
   \<and> length (keys (DAList.update ''T1'' rec3 (DAList.update ''T2'' rec2
              (DAList.update ''T1'' rec1 DAList.empty)))) = 3 - 1"
proof -
  let ?rows = "[demo_row TS_KEY ''T1'' ''1.50'' ''10'' ''2'',
        demo_row BOM_TS_KEY ''T2'' ''2.00'' ''0'' ''0'', demo_row TS_KEY ''T1'' ''0.75'' ''5'' ''5'']"
  let ?d = "DAList.update ''T1'' rec3 (DAList.update ''T2'' rec2
              (DAList.update ''T1'' rec1 DAList.empty))"
  have run: "read_game_data demo_int demo_float ?rows = Inr ?d"
    by (simp add: read_game_data_def demo_parse1 demo_parse2 demo_parse1')
  have st: "stamps ?rows = [] @ ''T1'' # [''T2''] @ ''T1'' # []"
    by (simp add: stamps_store [OF demo_parse1] stamps_store [OF demo_parse2]
          stamps_store [OF demo_parse1'] stamps_Nil)
  have di: "distinct ([] @ [''T2''] @ ''T1'' # [])" by simp
  have ks: "keys ?d = [''T1'', ''T2'']" by (simp add: keys_update keys_empty)
  have lk: "DAList.lookup ?d ''T1'' = Some rec3" by simp
  from duplicate_timestamp_last_wins [OF run st] di
  have "length (keys ?d) = length (stamps ?rows) - 1" by blast
  then have "length (keys ?d) = 3 - 1" unfolding st by simp
  with run st di ks lk show ?thesis by (intro conjI)
qed

end
